theory Spec2Isabelle
  imports Complex_Main
begin

section \<open>The investment problem of \<^verbatim>\<open>investment_jax.py\<close>\<close>

text \<open>
  The source works on JAX arrays of 64-bit floats. Arrays are modelled as nested lists in
  row-major order (a vector is a list, a matrix a list of rows, and so on), floats as
  \<^typ>\<open>real\<close>: the theorems are about the index bookkeeping and the exact arithmetic of
  the operators, not about rounding. Integer arrays (policies) hold \<^typ>\<open>int\<close>.

  Every function of the source unpacks \<^verbatim>\<open>constants, sizes, arrays\<close>; the three tuples
  are the fields of one record.
\<close>

record model =
  \<beta> :: real
  a_0 :: real
  a_1 :: real
  \<gamma> :: real
  c :: real
  y_size :: nat
  z_size :: nat
  y_grid :: "real list"
  z_grid :: "real list"
  Q :: "real list list"

subsection \<open>Array primitives\<close>

text \<open>
  \<^verbatim>\<open>jnp.reshape\<close> keeps the row-major sequence of the elements and regroups it. The
  reshapes of the source are written out, one per target shape, reading the flat data by
  position; \<open>concat\<close> flattens one level. A reshape needs the element count to fit the
  target shape; the source raises otherwise, and the theorems assume the declared shapes.
\<close>

definition reshape_n :: "nat \<Rightarrow> 'a list \<Rightarrow> 'a list" where
  "reshape_n n xs = map (\<lambda>i. xs ! i) [0..<n]"

definition reshape_n1 :: "nat \<Rightarrow> 'a list \<Rightarrow> 'a list list" where
  "reshape_n1 n xs = map (\<lambda>i. [xs ! i]) [0..<n]"

definition reshape_1n :: "nat \<Rightarrow> 'a list \<Rightarrow> 'a list list" where
  "reshape_1n n xs = [reshape_n n xs]"

definition reshape_nm :: "nat \<Rightarrow> nat \<Rightarrow> 'a list \<Rightarrow> 'a list list" where
  "reshape_nm n m xs = map (\<lambda>i. map (\<lambda>j. xs ! (i * m + j)) [0..<m]) [0..<n]"

definition reshape_n11 :: "nat \<Rightarrow> 'a list \<Rightarrow> 'a list list list" where
  "reshape_n11 n xs = map (\<lambda>i. [[xs ! i]]) [0..<n]"

definition reshape_1n1 :: "nat \<Rightarrow> 'a list \<Rightarrow> 'a list list list" where
  "reshape_1n1 n xs = [reshape_n1 n xs]"

definition reshape_11n :: "nat \<Rightarrow> 'a list \<Rightarrow> 'a list list list" where
  "reshape_11n n xs = [[reshape_n n xs]]"

definition reshape_1nm :: "nat \<Rightarrow> nat \<Rightarrow> 'a list \<Rightarrow> 'a list list list" where
  "reshape_1nm n m xs = [reshape_nm n m xs]"

definition reshape_nm1 :: "nat \<Rightarrow> nat \<Rightarrow> 'a list \<Rightarrow> 'a list list list" where
  "reshape_nm1 n m xs = map (\<lambda>i. map (\<lambda>j. [xs ! (i * m + j)]) [0..<m]) [0..<n]"

definition reshape_11nm :: "nat \<Rightarrow> nat \<Rightarrow> 'a list \<Rightarrow> 'a list list list list" where
  "reshape_11nm n m xs = [[reshape_nm n m xs]]"

definition reshape_1n1m :: "nat \<Rightarrow> nat \<Rightarrow> 'a list \<Rightarrow> 'a list list list list" where
  "reshape_1n1m n m xs = [map (\<lambda>j. [map (\<lambda>jp. xs ! (j * m + jp)) [0..<m]]) [0..<n]]"

definition reshape_nm11 :: "nat \<Rightarrow> nat \<Rightarrow> 'a list \<Rightarrow> 'a list list list list" where
  "reshape_nm11 n m xs = map (\<lambda>i. map (\<lambda>j. [[xs ! (i * m + j)]]) [0..<m]) [0..<n]"

definition reshape_11n1 :: "nat \<Rightarrow> 'a list \<Rightarrow> 'a list list list list" where
  "reshape_11n1 n xs = [[reshape_n1 n xs]]"

text \<open>
  Broadcasting: an axis of length 1 is read at position 0 whatever the index, and the
  result axis has the longer of the two lengths (the source raises when the lengths
  differ and neither is 1).
\<close>

definition bget :: "'a list \<Rightarrow> nat \<Rightarrow> 'a" where
  "bget xs i = (if length xs = 1 then xs ! 0 else xs ! i)"

definition bzip :: "('a \<Rightarrow> 'b \<Rightarrow> 'c) \<Rightarrow> 'a list \<Rightarrow> 'b list \<Rightarrow> 'c list" where
  "bzip f xs ys = map (\<lambda>i. f (bget xs i) (bget ys i)) [0..<max (length xs) (length ys)]"

abbreviation bzip2 :: "('a \<Rightarrow> 'b \<Rightarrow> 'c) \<Rightarrow> 'a list list \<Rightarrow> 'b list list \<Rightarrow> 'c list list" where
  "bzip2 f \<equiv> bzip (bzip f)"

abbreviation bzip3 ::
  "('a \<Rightarrow> 'b \<Rightarrow> 'c) \<Rightarrow> 'a list list list \<Rightarrow> 'b list list list \<Rightarrow> 'c list list list" where
  "bzip3 f \<equiv> bzip (bzip2 f)"

abbreviation bzip4 ::
  "('a \<Rightarrow> 'b \<Rightarrow> 'c) \<Rightarrow> 'a list list list list \<Rightarrow> 'b list list list list
     \<Rightarrow> 'c list list list list" where
  "bzip4 f \<equiv> bzip (bzip3 f)"

text \<open>An operation with a scalar acts on every element.\<close>

abbreviation smap2 :: "('a \<Rightarrow> 'b) \<Rightarrow> 'a list list \<Rightarrow> 'b list list" where
  "smap2 f \<equiv> map (map f)"

abbreviation smap3 :: "('a \<Rightarrow> 'b) \<Rightarrow> 'a list list list \<Rightarrow> 'b list list list" where
  "smap3 f \<equiv> map (smap2 f)"

abbreviation smap4 :: "('a \<Rightarrow> 'b) \<Rightarrow> 'a list list list list \<Rightarrow> 'b list list list list" where
  "smap4 f \<equiv> map (smap3 f)"

subsection \<open>The Bellman backup \<^verbatim>\<open>B\<close>\<close>

text \<open>
  \<^verbatim>\<open>
  y  = jnp.reshape(y_grid, (y_size, 1, 1))
  z  = jnp.reshape(z_grid, (1, z_size, 1))
  yp = jnp.reshape(y_grid, (1, 1, y_size))
  R = (a_0 - a_1 * y + z - c) * y - \<gamma> * (yp - y)**2
  v = jnp.reshape(v, (1, 1, y_size, z_size))
  Q = jnp.reshape(Q, (1, z_size, 1, z_size))
  C = jnp.sum(v * Q, axis=3)
  return R + \<beta> * C
  \<close>
\<close>

definition B_R :: "model \<Rightarrow> real list list list" where
  "B_R m =
    (let y = reshape_n11 (y_size m) (y_grid m);
         z = reshape_1n1 (z_size m) (z_grid m);
         yp = reshape_11n (y_size m) (y_grid m)
     in bzip3 (-)
          (bzip3 (*)
             (smap3 (\<lambda>x. x - c m) (bzip3 (+) (smap3 (\<lambda>x. a_0 m - x) (smap3 (\<lambda>x. a_1 m * x) y)) z))
             y)
          (smap3 (\<lambda>x. \<gamma> m * x) (smap3 (\<lambda>x. x\<^sup>2) (bzip3 (-) yp y))))"

definition B_C :: "model \<Rightarrow> real list list \<Rightarrow> real list list list" where
  "B_C m v =
    (let v4 = reshape_11nm (y_size m) (z_size m) (concat v);
         Q4 = reshape_1n1m (z_size m) (z_size m) (concat (Q m))
     in smap3 sum_list (bzip4 (*) v4 Q4))"

definition B :: "model \<Rightarrow> real list list \<Rightarrow> real list list list" where
  "B m v = bzip3 (+) (B_R m) (smap3 (\<lambda>x. \<beta> m * x) (B_C m v))"

subsection \<open>Shapes\<close>

definition has_shape2 :: "nat \<Rightarrow> nat \<Rightarrow> 'a list list \<Rightarrow> bool" where
  "has_shape2 n k xs \<longleftrightarrow> length xs = n \<and> (\<forall>r \<in> set xs. length r = k)"

definition has_shape3 :: "nat \<Rightarrow> nat \<Rightarrow> nat \<Rightarrow> 'a list list list \<Rightarrow> bool" where
  "has_shape3 n k l xs \<longleftrightarrow> length xs = n \<and> (\<forall>r \<in> set xs. has_shape2 k l r)"

text \<open>
  The arrays of a model have the sizes the model declares, and both sizes are positive
  (the data model of the specification).
\<close>

definition shapes_ok :: "model \<Rightarrow> bool" where
  "shapes_ok m \<longleftrightarrow>
     0 < y_size m \<and> 0 < z_size m \<and> length (y_grid m) = y_size m \<and>
     length (z_grid m) = z_size m \<and> has_shape2 (z_size m) (z_size m) (Q m)"

subsection \<open>Reductions and indexing\<close>

text \<open>
  \<^verbatim>\<open>jnp.max\<close> along an axis and \<^verbatim>\<open>jnp.argmax\<close>, which returns the position of the
  first occurrence of the maximum: the scan replaces the best position only on a strictly
  larger element. Both raise on an empty axis in the source; \<open>shapes_ok\<close> excludes it.
\<close>

definition amax :: "'a::linorder list \<Rightarrow> 'a" where
  "amax xs = fold max (tl xs) (hd xs)"

fun argmax_from :: "real list \<Rightarrow> nat \<Rightarrow> nat \<Rightarrow> real \<Rightarrow> nat" where
  "argmax_from [] i b bv = b"
| "argmax_from (x # xs) i b bv =
     (if bv < x then argmax_from xs (Suc i) i x else argmax_from xs (Suc i) b bv)"

definition argmax :: "real list \<Rightarrow> nat" where
  "argmax xs = argmax_from (tl xs) 1 0 (hd xs)"

text \<open>
  Reading an array at an integer index, as JAX does: a negative index counts from the
  end, and an index out of range is clamped to the nearest valid position.
\<close>

definition jidx :: "nat \<Rightarrow> int \<Rightarrow> nat" where
  "jidx n i = (let k = (if i < 0 then i + int n else i) in nat (min (max k 0) (int n - 1)))"

definition gather1 :: "'a list \<Rightarrow> int \<Rightarrow> 'a" where
  "gather1 xs i = xs ! jidx (length xs) i"

definition gather2 :: "'a list list \<Rightarrow> int \<Rightarrow> int \<Rightarrow> 'a" where
  "gather2 xs i j = gather1 (gather1 xs i) j"

text \<open>\<^verbatim>\<open>M @ x\<close> for a matrix and a vector, and \<^verbatim>\<open>np.identity(n)\<close>.\<close>

definition matvec :: "real list list \<Rightarrow> real list \<Rightarrow> real list" where
  "matvec M x = map (\<lambda>row. sum_list (map (\<lambda>k. row ! k * x ! k) [0..<length x])) M"

definition identity :: "nat \<Rightarrow> real list list" where
  "identity n = map (\<lambda>i. map (\<lambda>j. if i = j then 1 else 0) [0..<n]) [0..<n]"

text \<open>\<^verbatim>\<open>jnp.zeros(sizes)\<close>, and the error measure \<^verbatim>\<open>jnp.max(np.abs(a - b))\<close> of the loops.\<close>

definition zeros :: "model \<Rightarrow> 'a::zero list list" where
  "zeros m = replicate (y_size m) (replicate (z_size m) 0)"

definition max_abs_diff :: "'a::{linorder,minus,abs} list list \<Rightarrow> 'a list list \<Rightarrow> 'a" where
  "max_abs_diff a b = amax (concat (smap2 abs (bzip2 (-) a b)))"

subsection \<open>The Bellman operator and the greedy policy\<close>

text \<open>
  \<^verbatim>\<open>
  def T(v, ...):          return jnp.max(B(v, constants, sizes, arrays), axis=2)
  def get_greedy(v, ...): return jnp.argmax(B(v, constants, sizes, arrays), axis=2)
  \<close>
\<close>

definition T :: "model \<Rightarrow> real list list \<Rightarrow> real list list" where
  "T m v = smap2 amax (B m v)"

definition get_greedy :: "model \<Rightarrow> real list list \<Rightarrow> int list list" where
  "get_greedy m v = smap2 (\<lambda>r. int (argmax r)) (B m v)"

subsection \<open>The policy operators\<close>

text \<open>
  The four functions that take a policy start with the same lines:
  \<^verbatim>\<open>
  y = jnp.reshape(y_grid, (y_size, 1))
  z = jnp.reshape(z_grid, (1, z_size))
  yp = y_grid[\<sigma>]
  r_\<sigma> = (a_0 - a_1 * y + z - c) * y - \<gamma> * (yp - y)**2
  \<close>
\<close>

definition r_\<sigma> :: "model \<Rightarrow> int list list \<Rightarrow> real list list" where
  "r_\<sigma> m \<sigma> =
    (let y = reshape_n1 (y_size m) (y_grid m);
         z = reshape_1n (z_size m) (z_grid m);
         yp = smap2 (gather1 (y_grid m)) \<sigma>
     in bzip2 (-)
          (bzip2 (*)
             (smap2 (\<lambda>x. x - c m) (bzip2 (+) (smap2 (\<lambda>x. a_0 m - x) (smap2 (\<lambda>x. a_1 m * x) y)) z))
             y)
          (smap2 (\<lambda>x. \<gamma> m * x) (smap2 (\<lambda>x. x\<^sup>2) (bzip2 (-) yp y))))"

text \<open>
  \<^verbatim>\<open>T_\<sigma>\<close> and \<^verbatim>\<open>get_value\<close> build the same matrix:
  \<^verbatim>\<open>
  yp_idx = jnp.arange(y_size)
  yp_idx = jnp.reshape(yp_idx, (1, 1, y_size, 1))
  \<sigma> = jnp.reshape(\<sigma>, (y_size, z_size, 1, 1))
  A = jnp.where(\<sigma> == yp_idx, 1, 0)
  Q = jnp.reshape(Q, (1, z_size, 1, z_size))
  P_\<sigma> = A * Q
  n = y_size * z_size
  P_\<sigma> = jnp.reshape(P_\<sigma>, (n, n))
  \<close>
\<close>

definition P_\<sigma> :: "model \<Rightarrow> int list list \<Rightarrow> real list list" where
  "P_\<sigma> m \<sigma> =
    (let yp_idx = reshape_11n1 (y_size m) (map int [0..<y_size m]);
         \<sigma>4 = reshape_nm11 (y_size m) (z_size m) (concat \<sigma>);
         A4 = bzip4 (\<lambda>s k. if s = k then 1 else 0) \<sigma>4 yp_idx;
         Q4 = reshape_1n1m (z_size m) (z_size m) (concat (Q m));
         P4 = bzip4 (*) A4 Q4;
         n = y_size m * z_size m
     in reshape_nm n n (concat (concat (concat P4))))"

text \<open>
  \<^verbatim>\<open>
  r_\<sigma> = jnp.reshape(r_\<sigma>, n)
  v = jnp.reshape(v, n)
  new_v = r_\<sigma> + \<beta> * P_\<sigma> @ v
  return jnp.reshape(new_v, (y_size, z_size))
  \<close>
  \<^verbatim>\<open>*\<close> and \<^verbatim>\<open>@\<close> have the same precedence and associate to the left: the matrix is
  scaled, then applied.
\<close>

definition T_\<sigma> :: "model \<Rightarrow> real list list \<Rightarrow> int list list \<Rightarrow> real list list" where
  "T_\<sigma> m v \<sigma> =
    (let n = y_size m * z_size m;
         r = reshape_n n (concat (r_\<sigma> m \<sigma>));
         v1 = reshape_n n (concat v);
         new_v = bzip (+) r (matvec (smap2 (\<lambda>x. \<beta> m * x) (P_\<sigma> m \<sigma>)) v1)
     in reshape_nm (y_size m) (z_size m) new_v)"

text \<open>
  \<^verbatim>\<open>T_\<sigma>_2\<close> and \<^verbatim>\<open>A\<close> share the expectation over the gathered values:
  \<^verbatim>\<open>
  zp_idx = jnp.arange(z_size)
  zp_idx = jnp.reshape(zp_idx, (1, 1, z_size))
  \<sigma> = jnp.reshape(\<sigma>, (y_size, z_size, 1))
  V = v[\<sigma>, zp_idx]
  Q = jnp.reshape(Q, (1, z_size, z_size))
  Ev = np.sum(V * Q, axis=2)
  \<close>
\<close>

definition Ev :: "model \<Rightarrow> real list list \<Rightarrow> int list list \<Rightarrow> real list list" where
  "Ev m v \<sigma> =
    (let zp_idx = reshape_11n (z_size m) (map int [0..<z_size m]);
         \<sigma>3 = reshape_nm1 (y_size m) (z_size m) (concat \<sigma>);
         V = bzip3 (gather2 v) \<sigma>3 zp_idx;
         Q3 = reshape_1nm (z_size m) (z_size m) (concat (Q m))
     in smap2 sum_list (bzip3 (*) V Q3))"

text \<open>\<^verbatim>\<open>return r_\<sigma> + \<beta> * np.sum(V * Q, axis=2)\<close>\<close>

definition T_\<sigma>_2 :: "model \<Rightarrow> real list list \<Rightarrow> int list list \<Rightarrow> real list list" where
  "T_\<sigma>_2 m v \<sigma> = bzip2 (+) (r_\<sigma> m \<sigma>) (smap2 (\<lambda>x. \<beta> m * x) (Ev m v \<sigma>))"

subsection \<open>Policy evaluation\<close>

text \<open>
  \<^verbatim>\<open>
  v_\<sigma> = jnp.linalg.solve(np.identity(n) - \<beta> * P_\<sigma>, r_\<sigma>)
  return jnp.reshape(v_\<sigma>, (y_size, z_size))
  \<close>
  The dense solver belongs to the numeric library, not to the program: it is a parameter
  of the model.
\<close>

type_synonym dense_solver = "real list list \<Rightarrow> real list \<Rightarrow> real list"

definition get_value :: "dense_solver \<Rightarrow> model \<Rightarrow> int list list \<Rightarrow> real list list" where
  "get_value solve m \<sigma> =
    (let n = y_size m * z_size m;
         r = reshape_n n (concat (r_\<sigma> m \<sigma>));
         v_\<sigma> = solve (bzip2 (-) (identity n) (smap2 (\<lambda>x. \<beta> m * x) (P_\<sigma> m \<sigma>))) r
     in reshape_nm (y_size m) (z_size m) v_\<sigma>)"

text \<open>\<^verbatim>\<open>def A(v, \<sigma>, ...): ... return v - \<beta> * np.sum(V * Q, axis=2)\<close>\<close>

definition A :: "model \<Rightarrow> real list list \<Rightarrow> int list list \<Rightarrow> real list list" where
  "A m v \<sigma> = bzip2 (-) v (smap2 (\<lambda>x. \<beta> m * x) (Ev m v \<sigma>))"

text \<open>
  \<^verbatim>\<open>
  A_map = lambda v: A(v, \<sigma>, constants, sizes, arrays)
  return jax.scipy.sparse.linalg.bicgstab(A_map, r_\<sigma>)[0]
  \<close>
  The Krylov solver is a parameter as well. It returns a pair, the last iterate and
  whatever the library reports about the run (\<open>'info\<close>); the subscript \<^verbatim>\<open>[0]\<close> keeps
  the iterate.
\<close>

type_synonym 'info krylov_solver =
  "(real list list \<Rightarrow> real list list) \<Rightarrow> real list list \<Rightarrow> real list list \<times> 'info"

definition A_map :: "model \<Rightarrow> int list list \<Rightarrow> real list list \<Rightarrow> real list list" where
  "A_map m \<sigma> v = A m v \<sigma>"

definition get_value_2 :: "'info krylov_solver \<Rightarrow> model \<Rightarrow> int list list \<Rightarrow> real list list" where
  "get_value_2 solver m \<sigma> = fst (solver (A_map m \<sigma>) (r_\<sigma> m \<sigma>))"

subsection \<open>The library's Krylov solver\<close>

text \<open>
  \<^verbatim>\<open>jax.scipy.sparse.linalg.bicgstab(A, b)\<close> as \<^verbatim>\<open>get_value_2\<close> calls it, every
  option left at its default: \<^verbatim>\<open>x0 = zeros_like(b)\<close>, \<^verbatim>\<open>tol = 1e-5\<close>,
  \<^verbatim>\<open>atol = 0.0\<close>, \<^verbatim>\<open>maxiter = 10 * size\<close>, no preconditioner (\<^verbatim>\<open>M\<close> is the identity),
  and the pair \<^verbatim>\<open>(x, None)\<close> as result. The library's loop is
  \<^verbatim>\<open>
  bs = _vdot_real_tree(b, b)
  atol2 = jnp.maximum(jnp.square(tol) * bs, jnp.square(atol))
  def cond_fun(value):
    x, r, *_, k = value
    rs = _vdot_real_tree(r, r)
    return (rs > atol2) & (k < maxiter) & (k >= 0)
  def body_fun(value):
    x, r, rhat, alpha, omega, rho, p, q, k = value
    rho_ = _vdot_tree(rhat, r)
    beta = rho_ / rho * alpha / omega
    p_ = _add(r, _mul(beta, _sub(p, _mul(omega, q))))
    phat = M(p_)
    q_ = A(phat)
    alpha_ = rho_ / _vdot_tree(rhat, q_)
    s = _sub(r, _mul(alpha_, q_))
    exit_early = _vdot_real_tree(s, s) < atol2
    shat = M(s)
    t = A(shat)
    omega_ = _vdot_tree(t, s) / _vdot_tree(t, t)
    x_ = where(exit_early, _add(x, _mul(alpha_, phat)),
               _add(x, _add(_mul(alpha_, phat), _mul(omega_, shat))))
    r_ = where(exit_early, s, _sub(s, _mul(omega_, t)))
    k_ = jnp.where((omega_ == 0) | (alpha_ == 0), -11, k + 1)
    k_ = jnp.where((rho_ == 0), -10, k_)
    return x_, r_, rhat, alpha_, omega_, rho_, p_, q_, k_
  r0 = _sub(b, A(x0))
  initial_value = (x0, r0, r0, 1, 1, 1, r0, r0, 0)
  x_final, *_ = lax.while_loop(cond_fun, body_fun, initial_value)
  \<close>
  The arithmetic of the model is exact. A quotient with divisor zero is \<open>0\<close> in HOL
  where the library's floats give an infinity or a NaN; the counter \<open>k\<close> of the model
  is then \<open>-11\<close> where the library's is \<open>k + 1\<close>. The counter never leaves the solver.
\<close>

definition vdot :: "real list list \<Rightarrow> real list list \<Rightarrow> real" where
  "vdot a b = sum_list (concat (bzip2 (*) a b))"

type_synonym bicgstab_state =
  "real list list \<times> real list list \<times> real list list \<times> real \<times> real \<times> real \<times>
   real list list \<times> real list list \<times> int"

definition cond_fun :: "real \<Rightarrow> int \<Rightarrow> bicgstab_state \<Rightarrow> bool" where
  "cond_fun atol2 maxiter = (\<lambda>(x, r, rhat, alpha, omega, rho, p, q, k).
     vdot r r > atol2 \<and> k < maxiter \<and> k \<ge> 0)"

definition body_fun ::
  "(real list list \<Rightarrow> real list list) \<Rightarrow> real \<Rightarrow> bicgstab_state \<Rightarrow> bicgstab_state" where
  "body_fun A_fun atol2 = (\<lambda>(x, r, rhat, alpha, omega, rho, p, q, k).
    (let rho' = vdot rhat r;
         beta = rho' / rho * alpha / omega;
         p' = bzip2 (+) r (smap2 (\<lambda>e. beta * e) (bzip2 (-) p (smap2 (\<lambda>e. omega * e) q)));
         q' = A_fun p';
         alpha' = rho' / vdot rhat q';
         s = bzip2 (-) r (smap2 (\<lambda>e. alpha' * e) q');
         exit_early = vdot s s < atol2;
         t = A_fun s;
         omega' = vdot t s / vdot t t;
         x' = (if exit_early then bzip2 (+) x (smap2 (\<lambda>e. alpha' * e) p')
               else bzip2 (+) x
                      (bzip2 (+) (smap2 (\<lambda>e. alpha' * e) p') (smap2 (\<lambda>e. omega' * e) s)));
         r' = (if exit_early then s else bzip2 (-) s (smap2 (\<lambda>e. omega' * e) t));
         k1 = (if omega' = 0 \<or> alpha' = 0 then - 11 else k + 1);
         k2 = (if rho' = 0 then - 10 else k1)
     in (x', r', rhat, alpha', omega', rho', p', q', k2)))"

text \<open>
  \<^verbatim>\<open>lax.while_loop\<close>. Every run of the body adds one to \<open>k\<close> or makes it negative, and
  the test needs \<open>0 \<le> k < maxiter\<close>: the body runs at most \<open>maxiter\<close> times, and the
  loop of the model counts them down.
\<close>

fun while_loop :: "nat \<Rightarrow> (bicgstab_state \<Rightarrow> bool) \<Rightarrow> (bicgstab_state \<Rightarrow> bicgstab_state)
    \<Rightarrow> bicgstab_state \<Rightarrow> bicgstab_state" where
  "while_loop 0 cnd body st = st"
| "while_loop (Suc n) cnd body st = (if cnd st then while_loop n cnd body (body st) else st)"

definition bicgstab :: "unit krylov_solver" where
  "bicgstab A_fun b =
    (let x0 = smap2 (\<lambda>_. 0) b;
         maxiter = 10 * length (concat b);
         bs = vdot b b;
         atol2 = max ((1 / 100000)\<^sup>2 * bs) (0\<^sup>2);
         r0 = bzip2 (-) b (A_fun x0);
         initial_value = (x0, r0, r0, 1, 1, 1, r0, r0, 0)
     in (fst (while_loop maxiter (cond_fun atol2 (int maxiter)) (body_fun A_fun atol2)
                initial_value), ()))"

subsection \<open>Solvers\<close>

text \<open>
  Modelled from the spec: \<^verbatim>\<open>successive_approx\<close> is imported from the module
  \<^verbatim>\<open>solvers\<close>, whose source is not available. The specification describes it as
  ``applying operator repeatedly until successive outputs differ by less than tolerance in
  sup norm'', with the returned value the converged iterate.
\<close>

partial_function (option) successive_approx ::
  "(real list list \<Rightarrow> real list list) \<Rightarrow> real list list \<Rightarrow> real \<Rightarrow> real list list option" where
  "successive_approx f x tol =
    (let x_new = f x
     in if max_abs_diff x_new x < tol then Some x_new else successive_approx f x_new tol)"

text \<open>
  \<^verbatim>\<open>
  _T = lambda v: T(v, constants, sizes, arrays)
  vz = jnp.zeros(sizes)
  v_star = successive_approx(_T, vz, tolerance=tol)
  return get_greedy(v_star, constants, sizes, arrays)
  \<close>
\<close>

definition value_iteration :: "model \<Rightarrow> real \<Rightarrow> int list list option" where
  "value_iteration m tol = map_option (get_greedy m) (successive_approx (T m) (zeros m) tol)"

text \<open>
  \<^verbatim>\<open>
  \<sigma> = jnp.zeros(sizes, dtype=int)
  i, error = 0, 1.0
  while error > 0:
      v_\<sigma> = get_value_2(\<sigma>, constants, sizes, arrays)
      \<sigma>_new = get_greedy(v_\<sigma>, constants, sizes, arrays)
      error = jnp.max(np.abs(\<sigma>_new - \<sigma>))
      \<sigma> = \<sigma>_new
      i = i + 1
  return \<sigma>
  \<close>
  The first test of the loop succeeds (\<open>error = 1.0\<close>), so the body runs at least once.
  The loop has no other exit: where it does not end, the model's value is \<open>None\<close>. The
  counter \<open>i\<close> is only printed by the source; the loop of the model returns it with the
  policy.
\<close>

partial_function (option) policy_iteration_loop ::
  "'info krylov_solver \<Rightarrow> model \<Rightarrow> int list list \<Rightarrow> nat \<Rightarrow> (int list list \<times> nat) option" where
  "policy_iteration_loop solver m \<sigma> i =
    (let v_\<sigma> = get_value_2 solver m \<sigma>;
         \<sigma>_new = get_greedy m v_\<sigma>;
         error = max_abs_diff \<sigma>_new \<sigma>
     in if error > 0 then policy_iteration_loop solver m \<sigma>_new (i + 1)
        else Some (\<sigma>_new, i + 1))"

definition policy_iteration :: "'info krylov_solver \<Rightarrow> model \<Rightarrow> int list list option" where
  "policy_iteration solver m = map_option fst (policy_iteration_loop solver m (zeros m) 0)"

text \<open>
  \<^verbatim>\<open>
  v = jnp.zeros(sizes)
  error = tol + 1
  while error > tol:
      last_v = v
      \<sigma> = get_greedy(v, constants, sizes, arrays)
      for _ in range(m):
          v = T_\<sigma>_2(v, \<sigma>, constants, sizes, arrays)
      error = jnp.max(np.abs(v - last_v))
  return get_greedy(v, constants, sizes, arrays)
  \<close>
  Here too the first test succeeds. The depth \<^verbatim>\<open>m\<close> of the source is \<open>depth\<close>.
\<close>

partial_function (option) optimistic_policy_iteration_loop ::
  "model \<Rightarrow> real \<Rightarrow> nat \<Rightarrow> real list list \<Rightarrow> real list list option" where
  "optimistic_policy_iteration_loop m tol depth v =
    (let last_v = v;
         \<sigma> = get_greedy m v;
         v' = ((\<lambda>w. T_\<sigma>_2 m w \<sigma>) ^^ depth) v;
         error = max_abs_diff v' last_v
     in if error > tol then optimistic_policy_iteration_loop m tol depth v' else Some v')"

definition optimistic_policy_iteration :: "model \<Rightarrow> real \<Rightarrow> nat \<Rightarrow> int list list option" where
  "optimistic_policy_iteration m tol depth =
     map_option (get_greedy m) (optimistic_policy_iteration_loop m tol depth (zeros m))"

subsection \<open>Well-formed inputs\<close>

text \<open>
  A policy has one entry per joint state, each a valid next-state index. A model is valid
  when its arrays have the declared sizes, the discount factor lies strictly between 0
  and 1, and the transition kernel is row-stochastic.
\<close>

definition valid_policy :: "model \<Rightarrow> int list list \<Rightarrow> bool" where
  "valid_policy m \<sigma> \<longleftrightarrow>
     has_shape2 (y_size m) (z_size m) \<sigma> \<and>
     (\<forall>row \<in> set \<sigma>. \<forall>s \<in> set row. 0 \<le> s \<and> s < int (y_size m))"

definition stochastic :: "real list list \<Rightarrow> bool" where
  "stochastic q \<longleftrightarrow> (\<forall>row \<in> set q. (\<forall>p \<in> set row. 0 \<le> p) \<and> sum_list row = 1)"

definition valid_model :: "model \<Rightarrow> bool" where
  "valid_model m \<longleftrightarrow> shapes_ok m \<and> 0 < \<beta> m \<and> \<beta> m < 1 \<and> stochastic (Q m)"

subsection \<open>Notions used in the statements and proofs\<close>

text \<open>
  The instantaneous reward at state \<open>i\<close>, exogenous state \<open>j\<close> and next state \<open>k\<close>,
  the expression that \<open>B\<close> and \<open>r_\<sigma>\<close> evaluate on their arrays.
\<close>

definition reward :: "model \<Rightarrow> nat \<Rightarrow> nat \<Rightarrow> nat \<Rightarrow> real" where
  "reward m i j k = (a_0 m - a_1 m * y_grid m ! i + z_grid m ! j - c m) * y_grid m ! i
       - \<gamma> m * (y_grid m ! k - y_grid m ! i)\<^sup>2"

text \<open>Position \<open>r\<close> holds the maximum of \<open>xs\<close>, and no earlier position does.\<close>

definition first_max :: "real list \<Rightarrow> nat \<Rightarrow> bool" where
  "first_max xs r \<longleftrightarrow>
     r < length xs \<and> (\<forall>k<length xs. xs ! k \<le> xs ! r) \<and> (\<forall>k<r. xs ! k < xs ! r)"

text \<open>The four-dimensional array that \<open>P_\<sigma>\<close> flattens, entry by entry.\<close>

definition P4 :: "model \<Rightarrow> int list list \<Rightarrow> real list list list list" where
  "P4 m \<sigma> = map (\<lambda>i. map (\<lambda>j. map (\<lambda>k. map (\<lambda>jp.
       (if concat \<sigma> ! (i * z_size m + j) = int k then 1 else 0) * concat (Q m) ! (j * z_size m + jp))
     [0..<z_size m]) [0..<y_size m]) [0..<z_size m]) [0..<y_size m]"


text \<open>
  A loop that repeats \<open>x \<leftarrow> f x\<close> while \<open>cont (f x) x\<close> holds stops at iteration
  \<open>n + 1\<close> when \<open>n\<close> is the first index at which the test fails.
\<close>

definition first_stop :: "('a \<Rightarrow> 'a) \<Rightarrow> ('a \<Rightarrow> 'a \<Rightarrow> bool) \<Rightarrow> 'a \<Rightarrow> nat \<Rightarrow> bool" where
  "first_stop f cont x n \<longleftrightarrow>
     \<not> cont ((f ^^ Suc n) x) ((f ^^ n) x) \<and> (\<forall>l<n. cont ((f ^^ Suc l) x) ((f ^^ l) x))"

text \<open>One iteration of the loop of \<open>policy_iteration\<close>, and of \<open>optimistic_policy_iteration\<close>.\<close>

definition pi_step :: "'info krylov_solver \<Rightarrow> model \<Rightarrow> int list list \<Rightarrow> int list list" where
  "pi_step solver m \<sigma> = get_greedy m (get_value_2 solver m \<sigma>)"

definition opi_step :: "model \<Rightarrow> nat \<Rightarrow> real list list \<Rightarrow> real list list" where
  "opi_step m depth v = ((\<lambda>w. T_\<sigma>_2 m w (get_greedy m v)) ^^ depth) v"

subsection \<open>A small model\<close>

text \<open>Two grid points for each state, used to evaluate the theorems at concrete inputs.\<close>

definition model0 :: model where
  "model0 = \<lparr>\<beta> = 1/2, a_0 = 5, a_1 = 1, \<gamma> = 1, c = 1, y_size = 2, z_size = 2,
     y_grid = [1, 2], z_grid = [0, 1], Q = [[1/2, 1/2], [1/4, 3/4]]\<rparr>"

definition v0 :: "real list list" where
  "v0 = [[1, 2], [3, 5]]"

definition \<sigma>0 :: "int list list" where
  "\<sigma>0 = [[0, 1], [1, 0]]"

text \<open>Without adjustment cost and from the zero value function, every action ties.\<close>

definition model_tie :: model where
  "model_tie = model0\<lparr>\<gamma> := 0\<rparr>"

section \<open>Lemmas on the array primitives\<close>

lemma length_bzip [simp]: "length (bzip f xs ys) = max (length xs) (length ys)"
  by (simp add: bzip_def)

lemma nth_bzip [simp]:
  "i < max (length xs) (length ys) \<Longrightarrow> bzip f xs ys ! i = f (bget xs i) (bget ys i)"
  by (simp add: bzip_def)

lemma bget_singleton [simp]: "bget [x] i = x"
  by (simp add: bget_def)

lemma bget_map_upt [simp]: "i < n \<Longrightarrow> bget (map f [0..<n]) i = f i"
  by (auto simp: bget_def)

lemma concat_nth_shape2:
  assumes "has_shape2 n k xs" "i < n" "j < k"
  shows "concat xs ! (i * k + j) = xs ! i ! j"
  using assms
proof (induction xs arbitrary: n i)
  case Nil
  then show ?case by (simp add: has_shape2_def)
next
  case (Cons r rs)
  from Cons.prems have lr: "length r = k" and n: "n = Suc (length rs)"
    and rest: "has_shape2 (length rs) k rs"
    by (auto simp: has_shape2_def)
  show ?case
  proof (cases i)
    case 0
    with lr Cons.prems show ?thesis by (simp add: nth_append)
  next
    case (Suc i')
    with Cons.prems n have "i' < length rs" by simp
    from Cons.IH [OF rest this \<open>j < k\<close>] lr Suc show ?thesis
      by (simp add: nth_append)
  qed
qed

lemma length_concat_shape2: "has_shape2 n k xs \<Longrightarrow> length (concat xs) = n * k"
  by (induction xs arbitrary: n) (auto simp: has_shape2_def)

lemma reshape_nm_concat: "has_shape2 n k xs \<Longrightarrow> reshape_nm n k (concat xs) = xs"
proof (rule nth_equalityI)
  assume s: "has_shape2 n k xs"
  then show "length (reshape_nm n k (concat xs)) = length xs"
    by (simp add: reshape_nm_def has_shape2_def)
  fix i assume "i < length (reshape_nm n k (concat xs))"
  then have i: "i < n" by (simp add: reshape_nm_def)
  with s have "length (xs ! i) = k" by (simp add: has_shape2_def)
  with s i show "reshape_nm n k (concat xs) ! i = xs ! i"
    by (intro nth_equalityI) (simp_all add: reshape_nm_def concat_nth_shape2)
qed

lemma sum_list_map_upt: "sum_list (map f [0..<n]) = (\<Sum>i = 0..<n. f i)"
  by (simp add: interv_sum_list_conv_sum_set_nat)

lemma bget_nth [simp]: "i < length xs \<Longrightarrow> bget xs i = xs ! i"
  by (auto simp: bget_def)

lemma max_Suc_0 [simp]: "0 < n \<Longrightarrow> max n (Suc 0) = n" "0 < n \<Longrightarrow> max (Suc 0) n = n"
  by simp_all

lemma bzip_single_left [simp]: "ys \<noteq> [] \<Longrightarrow> bzip f [x] ys = map (f x) ys"
  by (rule nth_equalityI) (simp_all add: Suc_leI max_absorb2)

lemma bzip_single_right [simp]: "xs \<noteq> [] \<Longrightarrow> bzip f xs [y] = map (\<lambda>a. f a y) xs"
  by (rule nth_equalityI) (simp_all add: Suc_leI max_absorb1)

lemma bzip_map_upt [simp]:
  "bzip f (map g [0..<n]) (map h [0..<n]) = map (\<lambda>i. f (g i) (h i)) [0..<n]"
  by (rule nth_equalityI) simp_all

lemmas reshape_defs = reshape_n_def reshape_n1_def reshape_1n_def reshape_nm_def
  reshape_n11_def reshape_1n1_def reshape_11n_def reshape_1nm_def reshape_nm1_def
  reshape_11nm_def reshape_1n1m_def reshape_nm11_def reshape_11n1_def

lemma B_R_eq:
  assumes "0 < y_size m" "0 < z_size m"
  shows "B_R m = map (\<lambda>i. map (\<lambda>j. map (\<lambda>k.
     (a_0 m - a_1 m * y_grid m ! i + z_grid m ! j - c m) * y_grid m ! i
       - \<gamma> m * (y_grid m ! k - y_grid m ! i)\<^sup>2) [0..<y_size m]) [0..<z_size m]) [0..<y_size m]"
  using assms by (simp add: Let_def B_R_def reshape_defs comp_def)

lemma B_C_eq:
  assumes "0 < y_size m" "0 < z_size m"
  shows "B_C m v = [map (\<lambda>j. map (\<lambda>k.
     (\<Sum>jp = 0..<z_size m. concat v ! (k * z_size m + jp) * concat (Q m) ! (j * z_size m + jp)))
       [0..<y_size m]) [0..<z_size m]]"
  using assms by (simp add: Let_def B_C_def reshape_defs comp_def sum_list_map_upt)

lemma B_eq:
  assumes "0 < y_size m" "0 < z_size m"
  shows "B m v = map (\<lambda>i. map (\<lambda>j. map (\<lambda>k.
     (a_0 m - a_1 m * y_grid m ! i + z_grid m ! j - c m) * y_grid m ! i
       - \<gamma> m * (y_grid m ! k - y_grid m ! i)\<^sup>2
       + \<beta> m * (\<Sum>jp = 0..<z_size m. concat v ! (k * z_size m + jp) * concat (Q m) ! (j * z_size m + jp)))
      [0..<y_size m]) [0..<z_size m]) [0..<y_size m]"
  using assms by (simp add: B_def B_R_eq B_C_eq comp_def)

section \<open>Maximum and first position of the maximum\<close>

lemma argmax_from_first_max:
  assumes "length pre = i" "b < i" "pre ! b = bv"
    and "\<forall>k<i. pre ! k \<le> bv" "\<forall>k<b. pre ! k < bv"
  shows "first_max (pre @ xs) (argmax_from xs i b bv)"
  using assms
proof (induction xs arbitrary: pre i b bv)
  case Nil
  then show ?case by (simp add: first_max_def)
next
  case (Cons x xs)
  let ?pre = "pre @ [x]"
  show ?case
  proof (cases "bv < x")
    case True
    have "first_max (?pre @ xs) (argmax_from xs (Suc i) i x)"
    proof (rule Cons.IH)
      show "length ?pre = Suc i" using Cons.prems by simp
      show "i < Suc i" by simp
      show "?pre ! i = x" using Cons.prems by (simp add: nth_append)
      show "\<forall>k<Suc i. ?pre ! k \<le> x"
        using Cons.prems True by (auto simp: nth_append less_Suc_eq intro: order_trans less_imp_le)
      show "\<forall>k<i. ?pre ! k < x"
        using Cons.prems True by (auto simp: nth_append intro: le_less_trans)
    qed
    with True show ?thesis by simp
  next
    case False
    have "first_max (?pre @ xs) (argmax_from xs (Suc i) b bv)"
    proof (rule Cons.IH)
      show "length ?pre = Suc i" using Cons.prems by simp
      show "b < Suc i" using Cons.prems by simp
      show "?pre ! b = bv" using Cons.prems by (simp add: nth_append)
      show "\<forall>k<Suc i. ?pre ! k \<le> bv"
        using Cons.prems False by (auto simp: nth_append less_Suc_eq)
      show "\<forall>k<b. ?pre ! k < bv"
        using Cons.prems by (auto simp: nth_append)
    qed
    with False show ?thesis by simp
  qed
qed

lemma argmax_first_max: "xs \<noteq> [] \<Longrightarrow> first_max xs (argmax xs)"
proof -
  assume "xs \<noteq> []"
  then obtain x xs' where xs: "xs = x # xs'" by (cases xs) auto
  have "first_max ([x] @ xs') (argmax_from xs' 1 0 x)"
    by (rule argmax_from_first_max) simp_all
  with xs show ?thesis by (simp add: argmax_def)
qed

lemma first_max_Max:
  assumes "first_max xs r"
  shows "xs ! r = Max (set xs)"
proof -
  from assms have r: "r < length xs" and le: "\<forall>k<length xs. xs ! k \<le> xs ! r"
    by (simp_all add: first_max_def)
  show ?thesis
  proof (rule sym, rule Max_eqI)
    show "finite (set xs)" by simp
    show "xs ! r \<in> set xs" using r by simp
    fix y assume "y \<in> set xs"
    then show "y \<le> xs ! r" using le by (auto simp: in_set_conv_nth)
  qed
qed

lemma Max_insert_max:
  "finite S \<Longrightarrow> Max (insert (max a x) S) = Max (insert a (insert (x::'a::linorder) S))"
  by (cases "S = {}") (simp_all add: max.assoc)

lemma fold_max_Max: "fold max xs (x::'a::linorder) = Max (insert x (set xs))"
proof (induction xs arbitrary: x)
  case Nil
  show ?case by simp
next
  case (Cons a xs)
  have "fold max (a # xs) x = Max (insert (max a x) (set xs))"
    using Cons.IH by simp
  also have "\<dots> = Max (insert a (insert x (set xs)))"
    by (rule Max_insert_max) simp
  finally show ?case by (simp add: insert_commute)
qed

lemma amax_Max: "xs \<noteq> [] \<Longrightarrow> amax xs = Max (set xs)"
  by (cases xs) (simp_all add: amax_def fold_max_Max)

section \<open>The policy operators, entry by entry\<close>

lemma shape2_as_map:
  assumes "has_shape2 n k xs"
  shows "xs = map (\<lambda>i. map (\<lambda>j. xs ! i ! j) [0..<k]) [0..<n]"
  using assms by (auto simp: has_shape2_def intro!: nth_equalityI)

lemma jidx_valid [simp]: "0 \<le> s \<Longrightarrow> s < int n \<Longrightarrow> jidx n s = nat s"
  by (simp add: jidx_def Let_def)

lemma jidx_int [simp]: "k < n \<Longrightarrow> jidx n (int k) = k"
  by (simp add: jidx_def Let_def)

lemma r_sigma_map:
  assumes "0 < y_size m" "0 < z_size m"
  shows "r_\<sigma> m (map (\<lambda>i. map (\<lambda>j. f i j) [0..<z_size m]) [0..<y_size m]) =
    map (\<lambda>i. map (\<lambda>j.
       (a_0 m - a_1 m * y_grid m ! i + z_grid m ! j - c m) * y_grid m ! i
         - \<gamma> m * (gather1 (y_grid m) (f i j) - y_grid m ! i)\<^sup>2) [0..<z_size m]) [0..<y_size m]"
  using assms by (simp add: Let_def r_\<sigma>_def reshape_defs comp_def)

lemma r_sigma_eq:
  assumes "0 < y_size m" "0 < z_size m" "has_shape2 (y_size m) (z_size m) \<sigma>"
  shows "r_\<sigma> m \<sigma> =
    map (\<lambda>i. map (\<lambda>j.
       (a_0 m - a_1 m * y_grid m ! i + z_grid m ! j - c m) * y_grid m ! i
         - \<gamma> m * (gather1 (y_grid m) (\<sigma> ! i ! j) - y_grid m ! i)\<^sup>2) [0..<z_size m]) [0..<y_size m]"
  using r_sigma_map [OF assms(1,2), of "\<lambda>i j. \<sigma> ! i ! j"] shape2_as_map [OF assms(3)] by simp

lemma Ev_eq:
  assumes "0 < y_size m" "0 < z_size m"
  shows "Ev m v \<sigma> = map (\<lambda>i. map (\<lambda>j.
     (\<Sum>jp = 0..<z_size m. gather2 v (concat \<sigma> ! (i * z_size m + j)) (int jp)
         * concat (Q m) ! (j * z_size m + jp))) [0..<z_size m]) [0..<y_size m]"
  using assms by (simp add: Let_def Ev_def reshape_defs comp_def sum_list_map_upt)

lemma T_sigma_2_eq:
  assumes "0 < y_size m" "0 < z_size m" "has_shape2 (y_size m) (z_size m) \<sigma>"
  shows "T_\<sigma>_2 m v \<sigma> = map (\<lambda>i. map (\<lambda>j.
       (a_0 m - a_1 m * y_grid m ! i + z_grid m ! j - c m) * y_grid m ! i
         - \<gamma> m * (gather1 (y_grid m) (\<sigma> ! i ! j) - y_grid m ! i)\<^sup>2
       + \<beta> m * (\<Sum>jp = 0..<z_size m. gather2 v (concat \<sigma> ! (i * z_size m + j)) (int jp)
         * concat (Q m) ! (j * z_size m + jp))) [0..<z_size m]) [0..<y_size m]"
  using assms by (simp add: T_\<sigma>_2_def r_sigma_eq Ev_eq comp_def)

lemma P4_eq:
  assumes "0 < y_size m" "0 < z_size m"
  shows "bzip4 (*)
     (bzip4 (\<lambda>s k. if s = k then 1 else 0)
        (reshape_nm11 (y_size m) (z_size m) (concat \<sigma>))
        (reshape_11n1 (y_size m) (map int [0..<y_size m])))
     (reshape_1n1m (z_size m) (z_size m) (concat (Q m))) = P4 m \<sigma>"
  using assms
  by (simp add: P4_def reshape_nm11_def reshape_11n1_def reshape_1n1m_def reshape_n1_def
      comp_def cong: map_cong)

lemma P_sigma_P4:
  assumes "0 < y_size m" "0 < z_size m"
  shows "P_\<sigma> m \<sigma> = reshape_nm (y_size m * z_size m) (y_size m * z_size m) (concat (concat (concat (P4 m \<sigma>))))"
  by (simp only: P_\<sigma>_def Let_def P4_eq [OF assms])

lemma concat_map_upt_nth:
  assumes "\<And>i. i < n \<Longrightarrow> length (f i) = k" "i < n" "j < k"
  shows "concat (map f [0..<n]) ! (i * k + j) = f i ! j"
proof -
  have "has_shape2 n k (map f [0..<n])"
    using assms(1) by (auto simp: has_shape2_def)
  from concat_nth_shape2 [OF this assms(2,3)] assms(2) show ?thesis by simp
qed

lemma length_concat_map_upt:
  assumes "\<And>i. i < n \<Longrightarrow> length (f i) = k"
  shows "length (concat (map f [0..<n])) = n * k"
proof -
  have "has_shape2 n k (map f [0..<n])"
    using assms(1) by (auto simp: has_shape2_def)
  then show ?thesis by (rule length_concat_shape2)
qed

lemma concat3_nth:
  fixes g :: "nat \<Rightarrow> nat \<Rightarrow> nat \<Rightarrow> nat \<Rightarrow> 'a"
  assumes "i < na" "j < nb" "k < nc" "l < nd"
  shows "concat (concat (concat
      (map (\<lambda>i. map (\<lambda>j. map (\<lambda>k. map (\<lambda>l. g i j k l) [0..<nd]) [0..<nc]) [0..<nb]) [0..<na])))
       ! (((i * nb + j) * nc + k) * nd + l) = g i j k l"
proof -
  let ?X = "map (\<lambda>i. map (\<lambda>j. map (\<lambda>k. map (\<lambda>l. g i j k l) [0..<nd]) [0..<nc]) [0..<nb]) [0..<na]"
  have s1: "has_shape2 na nb ?X" by (auto simp: has_shape2_def)
  have l1: "length (concat ?X) = na * nb" by (rule length_concat_shape2 [OF s1])
  have n1: "concat ?X ! (i * nb + j) = map (\<lambda>k. map (\<lambda>l. g i j k l) [0..<nd]) [0..<nc]"
    using concat_nth_shape2 [OF s1 assms(1,2)] assms by simp
  have s2: "has_shape2 (na * nb) nc (concat ?X)"
    using l1 by (auto simp: has_shape2_def)
  have ij: "i * nb + j < na * nb"
  proof -
    have "i * nb + j < i * nb + nb" using assms by simp
    also have "\<dots> = Suc i * nb" by simp
    also have "\<dots> \<le> na * nb" using assms by (intro mult_le_mono1) simp
    finally show ?thesis .
  qed
  have l2: "length (concat (concat ?X)) = na * nb * nc" by (rule length_concat_shape2 [OF s2])
  have n2: "concat (concat ?X) ! ((i * nb + j) * nc + k) = map (\<lambda>l. g i j k l) [0..<nd]"
    using concat_nth_shape2 [OF s2 ij assms(3)] n1 assms by simp
  have s3: "has_shape2 (na * nb * nc) nd (concat (concat ?X))"
    using l2 by (auto simp: has_shape2_def)
  have ijk: "(i * nb + j) * nc + k < na * nb * nc"
  proof -
    have "(i * nb + j) * nc + k < (i * nb + j) * nc + nc" using assms by simp
    also have "\<dots> = Suc (i * nb + j) * nc" by simp
    also have "\<dots> \<le> (na * nb) * nc" using ij by (intro mult_le_mono1) simp
    finally show ?thesis .
  qed
  from concat_nth_shape2 [OF s3 ijk assms(4)] n2 assms show ?thesis by simp
qed

lemma sum_flatten:
  fixes f :: "nat \<Rightarrow> real"
  shows "(\<Sum>col = 0..<n * k. f col) = (\<Sum>a = 0..<n. \<Sum>b = 0..<k. f (a * k + b))"
proof (induction n)
  case 0
  show ?case by simp
next
  case (Suc n)
  have "(\<Sum>col = 0..<Suc n * k. f col) = (\<Sum>col = 0..<n * k. f col) + (\<Sum>col = n * k..<n * k + k. f col)"
    by (simp add: sum.atLeastLessThan_concat add.commute)
  also have "(\<Sum>col = n * k..<n * k + k. f col) = (\<Sum>b = 0..<k. f (n * k + b))"
    using sum.shift_bounds_nat_ivl [of f 0 "n * k" k] by (simp add: add.commute)
  finally show ?case using Suc.IH by simp
qed

lemma flat_index_less: "i < n \<Longrightarrow> j < k \<Longrightarrow> i * k + j < n * (k::nat)"
proof -
  assume "i < n" "j < k"
  then have "i * k + j < i * k + k" by simp
  also have "\<dots> = Suc i * k" by simp
  also have "\<dots> \<le> n * k" using \<open>i < n\<close> by (intro mult_le_mono1) simp
  finally show ?thesis .
qed

lemma P_sigma_nth:
  assumes "0 < y_size m" "0 < z_size m"
    and "i < y_size m" "j < z_size m" "k < y_size m" "jp < z_size m"
  shows "P_\<sigma> m \<sigma> ! (i * z_size m + j) ! (k * z_size m + jp) =
     (if concat \<sigma> ! (i * z_size m + j) = int k then 1 else 0) * concat (Q m) ! (j * z_size m + jp)"
proof -
  let ?n = "y_size m * z_size m"
  have r: "i * z_size m + j < ?n" and cl: "k * z_size m + jp < ?n"
    using assms by (simp_all add: flat_index_less)
  have idx: "(i * z_size m + j) * ?n + (k * z_size m + jp)
      = ((i * z_size m + j) * y_size m + k) * z_size m + jp"
    by (simp add: algebra_simps)
  have "P_\<sigma> m \<sigma> ! (i * z_size m + j) ! (k * z_size m + jp)
      = concat (concat (concat (P4 m \<sigma>))) ! ((i * z_size m + j) * ?n + (k * z_size m + jp))"
    using r cl by (simp add: P_sigma_P4 [OF assms(1,2)] reshape_nm_def)
  also have "\<dots> = concat (concat (concat (P4 m \<sigma>))) ! (((i * z_size m + j) * y_size m + k) * z_size m + jp)"
    by (simp only: idx)
  also have "\<dots> = (if concat \<sigma> ! (i * z_size m + j) = int k then 1 else 0) * concat (Q m) ! (j * z_size m + jp)"
    unfolding P4_def by (rule concat3_nth) (use assms in simp_all)
  finally show ?thesis .
qed

lemma length_P_sigma:
  assumes "0 < y_size m" "0 < z_size m"
  shows "length (P_\<sigma> m \<sigma>) = y_size m * z_size m"
  by (simp add: P_sigma_P4 [OF assms] reshape_nm_def)

lemma length_P_sigma_row:
  assumes "0 < y_size m" "0 < z_size m" "r < y_size m * z_size m"
  shows "length (P_\<sigma> m \<sigma> ! r) = y_size m * z_size m"
  using assms(3) by (simp add: P_sigma_P4 [OF assms(1,2)] reshape_nm_def)

lemma valid_policy_nth:
  assumes "valid_policy m \<sigma>" "i < y_size m" "j < z_size m"
  shows "0 \<le> \<sigma> ! i ! j" "\<sigma> ! i ! j < int (y_size m)" "nat (\<sigma> ! i ! j) < y_size m"
proof -
  from assms have "\<sigma> ! i \<in> set \<sigma>" "length (\<sigma> ! i) = z_size m"
    by (auto simp: valid_policy_def has_shape2_def)
  with assms have "\<sigma> ! i ! j \<in> set (\<sigma> ! i)" by simp
  with assms(1) \<open>\<sigma> ! i \<in> set \<sigma>\<close> show "0 \<le> \<sigma> ! i ! j" "\<sigma> ! i ! j < int (y_size m)"
    by (auto simp: valid_policy_def)
  then show "nat (\<sigma> ! i ! j) < y_size m" by simp
qed

lemma shape2_nth_length: "has_shape2 n k xs \<Longrightarrow> i < n \<Longrightarrow> length (xs ! i) = k"
  by (simp add: has_shape2_def)

lemma matvec_P_sigma:
  assumes "shapes_ok m" "has_shape2 (y_size m) (z_size m) v" "valid_policy m \<sigma>"
    and "i < y_size m" "j < z_size m"
  shows "matvec (smap2 (\<lambda>x. \<beta> m * x) (P_\<sigma> m \<sigma>))
           (reshape_n (y_size m * z_size m) (concat v)) ! (i * z_size m + j)
       = \<beta> m * (\<Sum>jp = 0..<z_size m. v ! nat (\<sigma> ! i ! j) ! jp * Q m ! j ! jp)"
proof -
  let ?y = "y_size m" and ?z = "z_size m"
  let ?n = "?y * ?z"
  let ?s = "nat (\<sigma> ! i ! j)"
  from assms(1) have pos: "0 < ?y" "0 < ?z" and q: "has_shape2 ?z ?z (Q m)"
    by (simp_all add: shapes_ok_def)
  from assms(3) have sh: "has_shape2 ?y ?z \<sigma>" by (simp add: valid_policy_def)
  have r: "i * ?z + j < ?n" using assms by (simp add: flat_index_less)
  have s: "0 \<le> \<sigma> ! i ! j" "?s < ?y" using valid_policy_nth [OF assms(3-5)] by simp_all
  have cs: "concat \<sigma> ! (i * ?z + j) = \<sigma> ! i ! j"
    using sh assms by (simp add: concat_nth_shape2)
  have entry: "\<beta> m * P_\<sigma> m \<sigma> ! (i * ?z + j) ! (k * ?z + jp) * concat v ! (k * ?z + jp)
      = (if k = ?s then \<beta> m * (v ! ?s ! jp * Q m ! j ! jp) else 0)"
    if "k < ?y" "jp < ?z" for k jp
  proof -
    have "concat (Q m) ! (j * ?z + jp) = Q m ! j ! jp"
      using q assms that by (simp add: concat_nth_shape2)
    moreover have "concat v ! (k * ?z + jp) = v ! k ! jp"
      using assms that by (simp add: concat_nth_shape2)
    moreover have "\<sigma> ! i ! j = int k \<longleftrightarrow> k = ?s" using s by auto
    ultimately show ?thesis
      using that assms by (simp add: P_sigma_nth [OF pos] cs)
  qed
  have "matvec (smap2 (\<lambda>x. \<beta> m * x) (P_\<sigma> m \<sigma>)) (reshape_n ?n (concat v)) ! (i * ?z + j)
      = (\<Sum>col = 0..<?n. \<beta> m * P_\<sigma> m \<sigma> ! (i * ?z + j) ! col * concat v ! col)"
    using r pos
    by (simp add: matvec_def reshape_n_def length_P_sigma length_P_sigma_row sum_list_map_upt)
  also have "\<dots> = (\<Sum>k = 0..<?y. \<Sum>jp = 0..<?z.
        \<beta> m * P_\<sigma> m \<sigma> ! (i * ?z + j) ! (k * ?z + jp) * concat v ! (k * ?z + jp))"
    by (rule sum_flatten)
  also have "\<dots> = (\<Sum>k = 0..<?y. \<Sum>jp = 0..<?z.
        (if k = ?s then \<beta> m * (v ! ?s ! jp * Q m ! j ! jp) else 0))"
    by (intro sum.cong refl) (simp add: entry)
  also have "\<dots> = (\<Sum>k = 0..<?y. if k = ?s then (\<Sum>jp = 0..<?z. \<beta> m * (v ! ?s ! jp * Q m ! j ! jp)) else 0)"
    by (intro sum.cong refl) simp
  also have "\<dots> = (\<Sum>jp = 0..<?z. \<beta> m * (v ! ?s ! jp * Q m ! j ! jp))"
    using s by (simp add: sum.delta)
  also have "\<dots> = \<beta> m * (\<Sum>jp = 0..<?z. v ! ?s ! jp * Q m ! j ! jp)"
    by (simp add: sum_distrib_left)
  finally show ?thesis .
qed

lemma r_sigma_nth:
  assumes "shapes_ok m" "valid_policy m \<sigma>" "i < y_size m" "j < z_size m"
  shows "r_\<sigma> m \<sigma> ! i ! j = reward m i j (nat (\<sigma> ! i ! j))"
proof -
  from assms(1) have pos: "0 < y_size m" "0 < z_size m" and ly: "length (y_grid m) = y_size m"
    by (simp_all add: shapes_ok_def)
  from assms(2) have sh: "has_shape2 (y_size m) (z_size m) \<sigma>" by (simp add: valid_policy_def)
  have "gather1 (y_grid m) (\<sigma> ! i ! j) = y_grid m ! nat (\<sigma> ! i ! j)"
    using valid_policy_nth [OF assms(2-4)] ly by (simp add: gather1_def)
  with assms show ?thesis by (simp add: r_sigma_eq [OF pos sh] reward_def)
qed

lemma r_sigma_shape:
  assumes "shapes_ok m" "valid_policy m \<sigma>"
  shows "has_shape2 (y_size m) (z_size m) (r_\<sigma> m \<sigma>)"
proof -
  from assms(1) have pos: "0 < y_size m" "0 < z_size m" by (simp_all add: shapes_ok_def)
  from assms(2) have sh: "has_shape2 (y_size m) (z_size m) \<sigma>" by (simp add: valid_policy_def)
  show ?thesis by (auto simp: r_sigma_eq [OF pos sh] has_shape2_def)
qed

lemma T_sigma_nth:
  assumes "shapes_ok m" "has_shape2 (y_size m) (z_size m) v" "valid_policy m \<sigma>"
    and "i < y_size m" "j < z_size m"
  shows "T_\<sigma> m v \<sigma> ! i ! j = reward m i j (nat (\<sigma> ! i ! j))
       + \<beta> m * (\<Sum>jp = 0..<z_size m. v ! nat (\<sigma> ! i ! j) ! jp * Q m ! j ! jp)"
proof -
  let ?n = "y_size m * z_size m"
  from assms(1) have pos: "0 < y_size m" "0 < z_size m" by (simp_all add: shapes_ok_def)
  have r: "i * z_size m + j < ?n" using assms by (simp add: flat_index_less)
  have "concat (r_\<sigma> m \<sigma>) ! (i * z_size m + j) = r_\<sigma> m \<sigma> ! i ! j"
    using r_sigma_shape [OF assms(1,3)] assms(4,5) by (rule concat_nth_shape2)
  then have "reshape_n ?n (concat (r_\<sigma> m \<sigma>)) ! (i * z_size m + j) = reward m i j (nat (\<sigma> ! i ! j))"
    using r r_sigma_nth [OF assms(1,3,4,5)] by (simp add: reshape_n_def)
  moreover have "length (matvec (smap2 (\<lambda>x. \<beta> m * x) (P_\<sigma> m \<sigma>)) (reshape_n ?n (concat v))) = ?n"
    by (simp add: matvec_def length_P_sigma [OF pos])
  moreover have "length (reshape_n ?n (concat (r_\<sigma> m \<sigma>))) = ?n" by (simp add: reshape_n_def)
  ultimately show ?thesis
    using assms r matvec_P_sigma [OF assms]
    by (simp add: T_\<sigma>_def Let_def reshape_nm_def)
qed

lemma T_sigma_2_nth:
  assumes "shapes_ok m" "has_shape2 (y_size m) (z_size m) v" "valid_policy m \<sigma>"
    and "i < y_size m" "j < z_size m"
  shows "T_\<sigma>_2 m v \<sigma> ! i ! j = reward m i j (nat (\<sigma> ! i ! j))
       + \<beta> m * (\<Sum>jp = 0..<z_size m. v ! nat (\<sigma> ! i ! j) ! jp * Q m ! j ! jp)"
proof -
  let ?s = "nat (\<sigma> ! i ! j)"
  from assms(1) have pos: "0 < y_size m" "0 < z_size m" and ly: "length (y_grid m) = y_size m"
    and q: "has_shape2 (z_size m) (z_size m) (Q m)"
    by (simp_all add: shapes_ok_def)
  from assms(3) have sh: "has_shape2 (y_size m) (z_size m) \<sigma>" by (simp add: valid_policy_def)
  note s = valid_policy_nth [OF assms(3-5)]
  have cs: "concat \<sigma> ! (i * z_size m + j) = \<sigma> ! i ! j"
    using sh assms by (simp add: concat_nth_shape2)
  have g1: "gather1 (y_grid m) (\<sigma> ! i ! j) = y_grid m ! ?s"
    using s ly by (simp add: gather1_def)
  have lv: "length v = y_size m" "length (v ! ?s) = z_size m"
    using assms(2) s by (simp_all add: has_shape2_def)
  have "(\<Sum>jp = 0..<z_size m. gather2 v (\<sigma> ! i ! j) (int jp) * concat (Q m) ! (j * z_size m + jp))
      = (\<Sum>jp = 0..<z_size m. v ! ?s ! jp * Q m ! j ! jp)"
    using s lv q assms by (intro sum.cong refl) (simp add: gather2_def gather1_def concat_nth_shape2)
  with assms show ?thesis
    by (simp add: T_sigma_2_eq [OF pos sh] cs g1 reward_def)
qed

lemma T_sigma_shape: "has_shape2 (y_size m) (z_size m) (T_\<sigma> m v \<sigma>)"
  by (auto simp: T_\<sigma>_def Let_def reshape_nm_def has_shape2_def)

lemma T_sigma_2_shape:
  assumes "shapes_ok m" "valid_policy m \<sigma>"
  shows "has_shape2 (y_size m) (z_size m) (T_\<sigma>_2 m v \<sigma>)"
proof -
  from assms(1) have pos: "0 < y_size m" "0 < z_size m" by (simp_all add: shapes_ok_def)
  from assms(2) have sh: "has_shape2 (y_size m) (z_size m) \<sigma>" by (simp add: valid_policy_def)
  show ?thesis by (auto simp: T_sigma_2_eq [OF pos sh] has_shape2_def)
qed

lemma shape2_eqI:
  assumes "has_shape2 n k xs" "has_shape2 n k ys"
    and "\<And>i j. i < n \<Longrightarrow> j < k \<Longrightarrow> xs ! i ! j = ys ! i ! j"
  shows "xs = ys"
  using assms by (auto simp: has_shape2_def intro!: nth_equalityI)

section \<open>The Bellman backup\<close>

lemma B_nth:
  assumes "shapes_ok m" "has_shape2 (y_size m) (z_size m) v"
    and "i < y_size m" "j < z_size m" "k < y_size m"
  shows "B m v ! i ! j ! k =
     (a_0 m - a_1 m * y_grid m ! i + z_grid m ! j - c m) * y_grid m ! i
       - \<gamma> m * (y_grid m ! k - y_grid m ! i)\<^sup>2
       + \<beta> m * (\<Sum>jp = 0..<z_size m. v ! k ! jp * Q m ! j ! jp)"
proof -
  from assms(1) have pos: "0 < y_size m" "0 < z_size m"
    and q: "has_shape2 (z_size m) (z_size m) (Q m)"
    by (simp_all add: shapes_ok_def)
  have "(\<Sum>jp = 0..<z_size m. concat v ! (k * z_size m + jp) * concat (Q m) ! (j * z_size m + jp))
      = (\<Sum>jp = 0..<z_size m. v ! k ! jp * Q m ! j ! jp)"
    using assms q by (intro sum.cong refl) (simp add: concat_nth_shape2)
  with assms pos show ?thesis by (simp add: B_eq)
qed

lemma B_shape:
  assumes "shapes_ok m"
  shows "has_shape3 (y_size m) (z_size m) (y_size m) (B m v)"
  using assms by (auto simp: B_eq shapes_ok_def has_shape3_def has_shape2_def)

text \<open>
  C1. For a value function of shape \<open>y_size \<times> z_size\<close>, \<open>B\<close> returns an array of shape
  \<open>y_size \<times> z_size \<times> y_size\<close> whose entry \<open>(i, j, k)\<close> is the reward
  \<open>(a_0 - a_1 y\<^sub>i + z\<^sub>j - c) y\<^sub>i - \<gamma> (y\<^sub>k - y\<^sub>i)\<^sup>2\<close> plus \<open>\<beta>\<close> times the sum over \<open>j'\<close> of
  \<open>v[k, j'] Q[j, j']\<close>: the continuation value is read at the next state \<open>k\<close> and the
  kernel at the current exogenous state \<open>j\<close>.
\<close>

theorem B_backup_formula:
  assumes "shapes_ok m" "has_shape2 (y_size m) (z_size m) v"
  shows "has_shape3 (y_size m) (z_size m) (y_size m) (B m v) \<and>
    (\<forall>i<y_size m. \<forall>j<z_size m. \<forall>k<y_size m.
       B m v ! i ! j ! k =
         (a_0 m - a_1 m * y_grid m ! i + z_grid m ! j - c m) * y_grid m ! i
           - \<gamma> m * (y_grid m ! k - y_grid m ! i)\<^sup>2
           + \<beta> m * (\<Sum>jp = 0..<z_size m. v ! k ! jp * Q m ! j ! jp))"
  using assms B_nth B_shape by blast

lemma shapes_ok_model0: "shapes_ok model0"
  by (simp add: shapes_ok_def model0_def has_shape2_def)

lemma shape_v0: "has_shape2 (y_size model0) (z_size model0) v0"
  by (simp add: model0_def v0_def has_shape2_def)

theorem B_backup_formula_witness:
  "shapes_ok model0 \<and> has_shape2 (y_size model0) (z_size model0) v0 \<and>
   has_shape3 2 2 2 (B model0 v0) \<and> B model0 v0 ! 1 ! 0 ! 0 = 15/4"
proof -
  have "(1::nat) < y_size model0" "(0::nat) < z_size model0" "(0::nat) < y_size model0"
    by (simp_all add: model0_def)
  with B_backup_formula [OF shapes_ok_model0 shape_v0]
  have "has_shape3 (y_size model0) (z_size model0) (y_size model0) (B model0 v0)"
    and "B model0 v0 ! 1 ! 0 ! 0 =
         (a_0 model0 - a_1 model0 * y_grid model0 ! 1 + z_grid model0 ! 0 - c model0) * y_grid model0 ! 1
           - \<gamma> model0 * (y_grid model0 ! 0 - y_grid model0 ! 1)\<^sup>2
           + \<beta> model0 * (\<Sum>jp = 0..<z_size model0. v0 ! 0 ! jp * Q model0 ! 0 ! jp)"
    by blast+
  then show ?thesis
    using shapes_ok_model0 shape_v0 by (simp add: model0_def v0_def numeral_2_eq_2)
qed

section \<open>The Bellman operator and the greedy policy\<close>

lemma B_row:
  assumes "shapes_ok m" "i < y_size m" "j < z_size m"
  shows "length (B m v ! i ! j) = y_size m" "B m v ! i ! j \<noteq> []"
proof -
  from assms(1) have pos: "0 < y_size m" "0 < z_size m" by (simp_all add: shapes_ok_def)
  from assms(2,3) show "length (B m v ! i ! j) = y_size m" by (simp add: B_eq [OF pos])
  with pos show "B m v ! i ! j \<noteq> []" by auto
qed

lemma B_outer:
  assumes "shapes_ok m"
  shows "length (B m v) = y_size m" "i < y_size m \<Longrightarrow> length (B m v ! i) = z_size m"
proof -
  from assms have pos: "0 < y_size m" "0 < z_size m" by (simp_all add: shapes_ok_def)
  show "length (B m v) = y_size m" by (simp add: B_eq [OF pos])
  show "i < y_size m \<Longrightarrow> length (B m v ! i) = z_size m" by (simp add: B_eq [OF pos])
qed

lemma T_nth:
  assumes "shapes_ok m" "i < y_size m" "j < z_size m"
  shows "T m v ! i ! j = Max (set (B m v ! i ! j))"
  using assms B_outer [OF assms(1), where v = v] B_row [OF assms, where v = v]
  by (simp add: T_def amax_Max)

lemma T_shape:
  assumes "shapes_ok m"
  shows "has_shape2 (y_size m) (z_size m) (T m v)"
  using B_shape [OF assms, where v = v] by (auto simp: T_def has_shape3_def has_shape2_def)

lemma get_greedy_nth:
  assumes "shapes_ok m" "i < y_size m" "j < z_size m"
  shows "get_greedy m v ! i ! j = int (argmax (B m v ! i ! j))"
  using assms B_outer [OF assms(1), where v = v] by (simp add: get_greedy_def)

lemma get_greedy_shape:
  assumes "shapes_ok m"
  shows "has_shape2 (y_size m) (z_size m) (get_greedy m v)"
  using B_shape [OF assms, where v = v] by (auto simp: get_greedy_def has_shape3_def has_shape2_def)

lemma get_greedy_first_max:
  assumes "shapes_ok m" "i < y_size m" "j < z_size m"
  shows "first_max (B m v ! i ! j) (nat (get_greedy m v ! i ! j))"
  using argmax_first_max [OF B_row(2) [OF assms, where v = v]] get_greedy_nth [OF assms, where v = v] by simp

lemma get_greedy_valid:
  assumes "shapes_ok m"
  shows "valid_policy m (get_greedy m v)"
  unfolding valid_policy_def
proof (intro conjI ballI)
  show sh: "has_shape2 (y_size m) (z_size m) (get_greedy m v)" by (rule get_greedy_shape [OF assms])
  fix row s assume "row \<in> set (get_greedy m v)" "s \<in> set row"
  then obtain i j where i: "i < length (get_greedy m v)" and row: "row = get_greedy m v ! i"
    and j: "j < length row" and s: "s = row ! j"
    by (auto simp: in_set_conv_nth)
  from sh i have i': "i < y_size m" by (simp add: has_shape2_def)
  with sh row j have j': "j < z_size m" by (simp add: has_shape2_def)
  from get_greedy_first_max [OF assms i' j', where v = v] B_row(1) [OF assms i' j', where v = v]
  have "nat (get_greedy m v ! i ! j) < y_size m" by (simp add: first_max_def)
  moreover have "0 \<le> get_greedy m v ! i ! j" by (simp add: get_greedy_nth [OF assms i' j'])
  ultimately show "0 \<le> s" "s < int (y_size m)" using row s by simp_all
qed

lemma T_sigma_2_greedy:
  assumes "shapes_ok m" "has_shape2 (y_size m) (z_size m) v"
  shows "T_\<sigma>_2 m v (get_greedy m v) = T m v"
proof (rule shape2_eqI)
  note vp = get_greedy_valid [OF assms(1), where v = v]
  show "has_shape2 (y_size m) (z_size m) (T_\<sigma>_2 m v (get_greedy m v))"
    using assms vp by (simp add: T_sigma_2_shape)
  show "has_shape2 (y_size m) (z_size m) (T m v)" by (rule T_shape [OF assms(1)])
  fix i j assume ij: "i < y_size m" "j < z_size m"
  let ?g = "nat (get_greedy m v ! i ! j)"
  from valid_policy_nth [OF vp ij] have g: "?g < y_size m" by simp
  have "T_\<sigma>_2 m v (get_greedy m v) ! i ! j = B m v ! i ! j ! ?g"
    using assms ij g by (simp add: T_sigma_2_nth [OF assms vp ij] B_nth reward_def)
  also have "\<dots> = Max (set (B m v ! i ! j))"
    by (rule first_max_Max [OF get_greedy_first_max [OF assms(1) ij]])
  also have "\<dots> = T m v ! i ! j" by (simp add: T_nth [OF assms(1) ij])
  finally show "T_\<sigma>_2 m v (get_greedy m v) ! i ! j = T m v ! i ! j" .
qed

lemma T_sigma_eq_T_sigma_2:
  assumes "shapes_ok m" "has_shape2 (y_size m) (z_size m) v" "valid_policy m \<sigma>"
  shows "T_\<sigma> m v \<sigma> = T_\<sigma>_2 m v \<sigma>"
proof (rule shape2_eqI)
  show "has_shape2 (y_size m) (z_size m) (T_\<sigma> m v \<sigma>)" by (rule T_sigma_shape)
  show "has_shape2 (y_size m) (z_size m) (T_\<sigma>_2 m v \<sigma>)" using assms by (simp add: T_sigma_2_shape)
  fix i j assume "i < y_size m" "j < z_size m"
  then show "T_\<sigma> m v \<sigma> ! i ! j = T_\<sigma>_2 m v \<sigma> ! i ! j"
    using assms by (simp add: T_sigma_nth T_sigma_2_nth)
qed

section \<open>Tie-break of the greedy policy\<close>

text \<open>
  C4. At every \<open>(i, j)\<close> the entry of \<open>get_greedy\<close> is a valid index at which the row
  \<open>B(v)[i, j, \<cdot>]\<close> takes its maximum, and it is not larger than any other index at which
  the row takes its maximum: among tied actions the smallest index is returned.
\<close>

theorem get_greedy_first_occurrence:
  assumes "shapes_ok m" "has_shape2 (y_size m) (z_size m) v" "i < y_size m" "j < z_size m"
  shows "0 \<le> get_greedy m v ! i ! j \<and> get_greedy m v ! i ! j < int (y_size m) \<and>
     B m v ! i ! j ! nat (get_greedy m v ! i ! j) = Max (set (B m v ! i ! j)) \<and>
     (\<forall>k<y_size m. B m v ! i ! j ! k = Max (set (B m v ! i ! j)) \<longrightarrow> get_greedy m v ! i ! j \<le> int k)"
proof -
  let ?row = "B m v ! i ! j" and ?g = "get_greedy m v ! i ! j"
  note fm = get_greedy_first_max [OF assms(1,3,4), where v = v]
  note mx = first_max_Max [OF fm]
  from valid_policy_nth [OF get_greedy_valid [OF assms(1)] assms(3,4), of v]
  have rng: "0 \<le> ?g" "?g < int (y_size m)" by simp_all
  have "?g \<le> int k" if "k < y_size m" "?row ! k = Max (set ?row)" for k
  proof (rule ccontr)
    assume "\<not> ?g \<le> int k"
    then have "k < nat ?g" by simp
    with fm have "?row ! k < ?row ! nat ?g" by (simp add: first_max_def)
    with that mx show False by simp
  qed
  with rng mx show ?thesis by blast
qed

lemma shapes_ok_model_tie: "shapes_ok model_tie"
  by (simp add: shapes_ok_def model_tie_def model0_def has_shape2_def)

lemma shape_zeros: "has_shape2 (y_size m) (z_size m) (zeros m)"
  by (simp add: zeros_def has_shape2_def)

theorem get_greedy_first_occurrence_witness:
  "shapes_ok model_tie \<and> has_shape2 (y_size model_tie) (z_size model_tie) (zeros model_tie) \<and>
   (0::nat) < y_size model_tie \<and> (0::nat) < z_size model_tie \<and>
   B model_tie (zeros model_tie) ! 0 ! 0 = [3, 3] \<and>
   get_greedy model_tie (zeros model_tie) ! 0 ! 0 = 0"
proof -
  let ?row = "B model_tie (zeros model_tie) ! 0 ! 0"
  let ?g = "get_greedy model_tie (zeros model_tie) ! 0 ! 0"
  have y: "(0::nat) < y_size model_tie" and z: "(0::nat) < z_size model_tie"
    by (simp_all add: model_tie_def model0_def)
  have row: "?row = [3, 3]" by code_simp
  from get_greedy_first_occurrence [OF shapes_ok_model_tie shape_zeros y z]
  have "0 \<le> ?g" and "\<forall>k<y_size model_tie. ?row ! k = Max (set ?row) \<longrightarrow> ?g \<le> int k"
    by blast+
  with y row have "?g = 0" by force
  with y z row shapes_ok_model_tie shape_zeros show ?thesis by blast
qed

section \<open>The two policy operators\<close>

text \<open>
  C2. For a value function of shape \<open>y_size \<times> z_size\<close> and a policy of that shape with
  entries in \<open>[0, y_size)\<close>, the dense operator \<open>T_\<sigma>\<close>, which builds the indicator array
  and the flattened \<open>n \<times> n\<close> matrix \<open>P_\<sigma>\<close>, and the matrix-free operator \<open>T_\<sigma>_2\<close>, which
  gathers \<open>v[\<sigma>[i, j], j']\<close>, return the same value function.
\<close>

theorem policy_operators_agree:
  assumes "shapes_ok m" "has_shape2 (y_size m) (z_size m) v" "valid_policy m \<sigma>"
  shows "T_\<sigma> m v \<sigma> = T_\<sigma>_2 m v \<sigma>"
  using assms by (rule T_sigma_eq_T_sigma_2)

lemma valid_policy_sigma0: "valid_policy model0 \<sigma>0"
  by (simp add: valid_policy_def has_shape2_def model0_def \<sigma>0_def)

theorem policy_operators_agree_witness:
  "shapes_ok model0 \<and> has_shape2 (y_size model0) (z_size model0) v0 \<and> valid_policy model0 \<sigma>0 \<and>
   T_\<sigma> model0 v0 \<sigma>0 = [[15 / 4, 21 / 4], [6, 47 / 8]] \<and>
   T_\<sigma>_2 model0 v0 \<sigma>0 = [[15 / 4, 21 / 4], [6, 47 / 8]]"
proof -
  have "T_\<sigma>_2 model0 v0 \<sigma>0 = [[15 / 4, 21 / 4], [6, 47 / 8]]" by code_simp
  with policy_operators_agree [OF shapes_ok_model0 shape_v0 valid_policy_sigma0]
  show ?thesis using shapes_ok_model0 shape_v0 valid_policy_sigma0 by simp
qed

text \<open>
  C10. For a value function of shape \<open>y_size \<times> z_size\<close>, the policy operator applied with
  the greedy policy of \<open>v\<close> is the Bellman operator: \<open>T_\<sigma>(v, get_greedy(v)) = T(v)\<close>.
\<close>

theorem greedy_policy_operator_is_T:
  assumes "shapes_ok m" "has_shape2 (y_size m) (z_size m) v"
  shows "T_\<sigma> m v (get_greedy m v) = T m v"
  using assms T_sigma_eq_T_sigma_2 [OF assms get_greedy_valid [OF assms(1)]] T_sigma_2_greedy by simp

theorem greedy_policy_operator_is_T_witness:
  "shapes_ok model0 \<and> has_shape2 (y_size model0) (z_size model0) v0 \<and>
   get_greedy model0 v0 = [[1, 1], [1, 1]] \<and>
   T_\<sigma> model0 v0 [[1, 1], [1, 1]] = [[4, 21 / 4], [6, 33 / 4]] \<and>
   T model0 v0 = [[4, 21 / 4], [6, 33 / 4]]"
proof -
  have g: "get_greedy model0 v0 = [[1, 1], [1, 1]]" by code_simp
  have "T model0 v0 = [[4, 21 / 4], [6, 33 / 4]]" by code_simp
  with greedy_policy_operator_is_T [OF shapes_ok_model0 shape_v0] g
  show ?thesis using shapes_ok_model0 shape_v0 by simp
qed

section \<open>Contraction of the Bellman operator\<close>

lemma abs_diff_eq:
  assumes "has_shape2 n k a" "has_shape2 n k b"
  shows "smap2 abs (bzip2 (-) a b) = map (\<lambda>i. map (\<lambda>j. \<bar>a ! i ! j - b ! i ! j\<bar>) [0..<k]) [0..<n]"
proof -
  let ?a = "map (\<lambda>i. map (\<lambda>j. a ! i ! j) [0..<k]) [0..<n]"
  let ?b = "map (\<lambda>i. map (\<lambda>j. b ! i ! j) [0..<k]) [0..<n]"
  have ea: "?a = a" and eb: "?b = b"
    using assms by (simp_all add: shape2_as_map [symmetric])
  have "smap2 abs (bzip2 (-) ?a ?b)
      = map (\<lambda>i. map (\<lambda>j. \<bar>a ! i ! j - b ! i ! j\<bar>) [0..<k]) [0..<n]"
    by (simp add: comp_def)
  then show ?thesis by (simp only: ea eb)
qed

lemma abs_diff_shape:
  assumes "has_shape2 n k a" "has_shape2 n k b"
  shows "has_shape2 n k (smap2 abs (bzip2 (-) a b))"
    and "i < n \<Longrightarrow> j < k \<Longrightarrow> smap2 abs (bzip2 (-) a b) ! i ! j = \<bar>a ! i ! j - b ! i ! j\<bar>"
  by (auto simp: abs_diff_eq [OF assms] has_shape2_def)

lemma set_concat_shape2:
  assumes "has_shape2 n k xs"
  shows "set (concat xs) = {xs ! i ! j | i j. i < n \<and> j < k}"
proof -
  have "set (concat xs) = (\<Union>r \<in> set xs. set r)" by simp
  also have "\<dots> = {xs ! i ! j | i j. i < n \<and> j < k}"
    using assms by (fastforce simp: has_shape2_def in_set_conv_nth)
  finally show ?thesis .
qed

lemma max_abs_diff_Max:
  fixes a b :: "'a::{linordered_idom} list list"
  assumes "has_shape2 n k a" "has_shape2 n k b" "0 < n" "0 < k"
  shows "max_abs_diff a b = Max {\<bar>a ! i ! j - b ! i ! j\<bar> | i j. i < n \<and> j < k}"
proof -
  let ?D = "smap2 abs (bzip2 (-) a b)"
  note D = abs_diff_shape [OF assms(1,2)]
  have "length (concat ?D) = n * k" using D(1) by (rule length_concat_shape2)
  with assms(3,4) have "0 < length (concat ?D)" by simp
  then have ne: "concat ?D \<noteq> []" by blast
  have "set (concat ?D) = {\<bar>a ! i ! j - b ! i ! j\<bar> | i j. i < n \<and> j < k}"
    by (fastforce simp: abs_diff_eq [OF assms(1,2)])
  then show ?thesis using ne by (simp add: max_abs_diff_def amax_Max)
qed

lemma finite_entries: "finite {f i j | i j. i < (n::nat) \<and> j < (k::nat)}"
proof -
  have "{f i j | i j. i < n \<and> j < k} = (\<lambda>(i, j). f i j) ` ({..<n} \<times> {..<k})" by auto
  then show ?thesis by simp
qed

lemma max_abs_diff_ge:
  fixes a b :: "'a::{linordered_idom} list list"
  assumes "has_shape2 n k a" "has_shape2 n k b" "i < n" "j < k"
  shows "\<bar>a ! i ! j - b ! i ! j\<bar> \<le> max_abs_diff a b"
proof -
  from assms have pos: "0 < n" "0 < k" by auto
  show ?thesis
    unfolding max_abs_diff_Max [OF assms(1,2) pos]
    using assms(3,4) by (intro Max_ge finite_entries) auto
qed

lemma max_abs_diff_le:
  fixes a b :: "'a::{linordered_idom} list list"
  assumes "has_shape2 n k a" "has_shape2 n k b" "0 < n" "0 < k"
    and "\<And>i j. i < n \<Longrightarrow> j < k \<Longrightarrow> \<bar>a ! i ! j - b ! i ! j\<bar> \<le> d"
  shows "max_abs_diff a b \<le> d"
  unfolding max_abs_diff_Max [OF assms(1-4)]
proof (rule Max.boundedI)
  show "finite {\<bar>a ! i ! j - b ! i ! j\<bar> | i j. i < n \<and> j < k}" by (rule finite_entries)
  show "{\<bar>a ! i ! j - b ! i ! j\<bar> | i j. i < n \<and> j < k} \<noteq> {}" using assms(3,4) by auto
  fix x assume "x \<in> {\<bar>a ! i ! j - b ! i ! j\<bar> | i j. i < n \<and> j < k}"
  then show "x \<le> d" using assms(5) by auto
qed

lemma max_abs_diff_nonneg:
  fixes a b :: "'a::{linordered_idom} list list"
  assumes "has_shape2 n k a" "has_shape2 n k b" "0 < n" "0 < k"
  shows "0 \<le> max_abs_diff a b"
proof -
  have "0 \<le> \<bar>a ! 0 ! 0 - b ! 0 ! 0\<bar>" by simp
  also have "\<dots> \<le> max_abs_diff a b" using assms by (rule max_abs_diff_ge)
  finally show ?thesis .
qed

lemma Max_nth_close:
  fixes xs ys :: "real list"
  assumes "length xs = n" "length ys = n" "0 < n"
    and "\<And>k. k < n \<Longrightarrow> \<bar>xs ! k - ys ! k\<bar> \<le> d"
  shows "\<bar>Max (set xs) - Max (set ys)\<bar> \<le> d"
proof -
  have one: "Max (set us) \<le> Max (set ws) + d"
    if "length us = n" "length ws = n" "\<And>k. k < n \<Longrightarrow> us ! k \<le> ws ! k + d"
    for us ws :: "real list"
  proof -
    from that assms(3) have "us \<noteq> []" by auto
    then have "Max (set us) \<in> set us" by (intro Max_in) simp_all
    then obtain r where "r < length us" "us ! r = Max (set us)"
      by (auto simp: in_set_conv_nth)
    then have r: "r < n" "Max (set us) = us ! r"
      using that(1) by simp_all
    have "us ! r \<le> ws ! r + d" using r that by simp
    moreover have "ws ! r \<le> Max (set ws)" using r that by (intro Max_ge) simp_all
    ultimately show ?thesis using r by simp
  qed
  have "Max (set xs) \<le> Max (set ys) + d"
    using assms(1,2) by (rule one) (use assms(4) in \<open>fastforce simp: abs_le_iff\<close>)
  moreover have "Max (set ys) \<le> Max (set xs) + d"
    using assms(2,1) by (rule one) (use assms(4) in \<open>fastforce simp: abs_le_iff\<close>)
  ultimately show ?thesis by (simp add: abs_le_iff)
qed

lemma stochastic_row:
  assumes "stochastic q" "has_shape2 n n q" "j < n"
  shows "(\<Sum>jp = 0..<n. q ! j ! jp) = 1" "jp < n \<Longrightarrow> 0 \<le> q ! j ! jp"
proof -
  from assms have row: "q ! j \<in> set q" and len: "length (q ! j) = n"
    by (auto simp: has_shape2_def)
  with assms(1) have "sum_list (q ! j) = 1" by (simp add: stochastic_def)
  then show "(\<Sum>jp = 0..<n. q ! j ! jp) = 1"
    using len by (simp add: sum_list_sum_nth atLeast0LessThan)
  assume "jp < n"
  with len have "q ! j ! jp \<in> set (q ! j)" by simp
  with assms(1) row show "0 \<le> q ! j ! jp" by (auto simp: stochastic_def)
qed

lemma B_entry_close:
  assumes "valid_model m" "has_shape2 (y_size m) (z_size m) v1" "has_shape2 (y_size m) (z_size m) v2"
    and "i < y_size m" "j < z_size m" "k < y_size m"
  shows "\<bar>B m v1 ! i ! j ! k - B m v2 ! i ! j ! k\<bar> \<le> \<beta> m * max_abs_diff v1 v2"
proof -
  let ?z = "z_size m" and ?d = "max_abs_diff v1 v2"
  from assms(1) have ok: "shapes_ok m" and b: "0 < \<beta> m" and st: "stochastic (Q m)"
    by (simp_all add: valid_model_def)
  from ok have q: "has_shape2 ?z ?z (Q m)" by (simp add: shapes_ok_def)
  note row = stochastic_row [OF st q assms(5)]
  have "B m v1 ! i ! j ! k - B m v2 ! i ! j ! k
      = \<beta> m * (\<Sum>jp = 0..<?z. (v1 ! k ! jp - v2 ! k ! jp) * Q m ! j ! jp)"
    using assms by (simp add: B_nth [OF ok] sum_subtractf left_diff_distrib right_diff_distrib)
  moreover have "\<bar>\<Sum>jp = 0..<?z. (v1 ! k ! jp - v2 ! k ! jp) * Q m ! j ! jp\<bar> \<le> ?d"
  proof -
    have "\<bar>\<Sum>jp = 0..<?z. (v1 ! k ! jp - v2 ! k ! jp) * Q m ! j ! jp\<bar>
        \<le> (\<Sum>jp = 0..<?z. \<bar>(v1 ! k ! jp - v2 ! k ! jp) * Q m ! j ! jp\<bar>)"
      by (rule sum_abs)
    also have "\<dots> \<le> (\<Sum>jp = 0..<?z. ?d * Q m ! j ! jp)"
    proof (rule sum_mono)
      fix jp assume "jp \<in> {0..<?z}"
      then have jp: "jp < ?z" by simp
      have "\<bar>v1 ! k ! jp - v2 ! k ! jp\<bar> \<le> ?d"
        using assms(2,3,6) jp by (rule max_abs_diff_ge)
      then show "\<bar>(v1 ! k ! jp - v2 ! k ! jp) * Q m ! j ! jp\<bar> \<le> ?d * Q m ! j ! jp"
        using row(2) [OF jp] by (simp add: abs_mult mult_right_mono)
    qed
    also have "\<dots> = ?d" using row(1) by (simp add: sum_distrib_left [symmetric])
    finally show ?thesis .
  qed
  ultimately show ?thesis using b by (simp add: abs_mult)
qed

text \<open>
  C7. For a valid model (declared shapes, discount factor in \<open>(0, 1)\<close>, row-stochastic
  kernel) and two value functions of shape \<open>y_size \<times> z_size\<close>, the Bellman operator is a
  contraction in the sup norm with modulus \<open>\<beta>\<close>:
  \<open>\<parallel>T v1 - T v2\<parallel> \<le> \<beta> \<parallel>v1 - v2\<parallel>\<close>, the norm of a difference being \<open>max_abs_diff\<close>.
\<close>

theorem T_contraction:
  assumes "valid_model m" "has_shape2 (y_size m) (z_size m) v1" "has_shape2 (y_size m) (z_size m) v2"
  shows "max_abs_diff (T m v1) (T m v2) \<le> \<beta> m * max_abs_diff v1 v2"
proof (rule max_abs_diff_le)
  from assms(1) have ok: "shapes_ok m" by (simp add: valid_model_def)
  then show "0 < y_size m" "0 < z_size m" by (simp_all add: shapes_ok_def)
  show "has_shape2 (y_size m) (z_size m) (T m v1)" "has_shape2 (y_size m) (z_size m) (T m v2)"
    using ok by (simp_all add: T_shape)
  fix i j assume ij: "i < y_size m" "j < z_size m"
  have "\<bar>Max (set (B m v1 ! i ! j)) - Max (set (B m v2 ! i ! j))\<bar> \<le> \<beta> m * max_abs_diff v1 v2"
  proof (rule Max_nth_close)
    show "length (B m v1 ! i ! j) = y_size m" "length (B m v2 ! i ! j) = y_size m"
      using ok ij by (simp_all add: B_row)
    show "0 < y_size m" using ok by (simp add: shapes_ok_def)
    fix k assume "k < y_size m"
    with assms ij show "\<bar>B m v1 ! i ! j ! k - B m v2 ! i ! j ! k\<bar> \<le> \<beta> m * max_abs_diff v1 v2"
      by (rule B_entry_close)
  qed
  then show "\<bar>T m v1 ! i ! j - T m v2 ! i ! j\<bar> \<le> \<beta> m * max_abs_diff v1 v2"
    using ok ij by (simp add: T_nth)
qed

lemma valid_model0: "valid_model model0"
  by (simp add: valid_model_def shapes_ok_model0) (simp add: model0_def stochastic_def)

theorem T_contraction_witness:
  "valid_model model0 \<and> has_shape2 (y_size model0) (z_size model0) v0 \<and>
   has_shape2 (y_size model0) (z_size model0) (zeros model0) \<and>
   max_abs_diff (T model0 v0) (T model0 (zeros model0)) \<le> \<beta> model0 * max_abs_diff v0 (zeros model0) \<and>
   max_abs_diff (T model0 v0) (T model0 (zeros model0)) = 9 / 4 \<and>
   \<beta> model0 * max_abs_diff v0 (zeros model0) = 5 / 2"
proof -
  have "max_abs_diff (T model0 v0) (T model0 (zeros model0)) = 9 / 4" by code_simp
  moreover have "\<beta> model0 * max_abs_diff v0 (zeros model0) = 5 / 2" by code_simp
  ultimately show ?thesis
    using T_contraction [OF valid_model0 shape_v0 shape_zeros] valid_model0 shape_v0 shape_zeros
    by blast
qed

section \<open>The three loops\<close>

text \<open>
  Each loop applies a step until a test on two successive iterates fails. It returns
  exactly when some iterate is the first to fail the test, and then returns that iterate.
\<close>

lemma policy_iteration_loop_unfold:
  "policy_iteration_loop s m \<sigma> i =
     (if 0 < max_abs_diff (pi_step s m \<sigma>) \<sigma> then policy_iteration_loop s m (pi_step s m \<sigma>) (Suc i)
      else Some (pi_step s m \<sigma>, Suc i))"
  by (subst policy_iteration_loop.simps) (simp add: Let_def pi_step_def)

lemma first_stop_0: "first_stop f cont x 0 \<longleftrightarrow> \<not> cont (f x) x"
  by (simp add: first_stop_def)

lemma first_stop_Suc:
  "first_stop f cont x (Suc n) \<longleftrightarrow> cont (f x) x \<and> first_stop f cont (f x) n"
proof -
  have sh: "(f ^^ k) (f x) = (f ^^ Suc k) x" for k
    by (simp add: funpow_swap1)
  have "(\<forall>l<Suc n. cont ((f ^^ Suc l) x) ((f ^^ l) x)) \<longleftrightarrow>
        cont (f x) x \<and> (\<forall>l<n. cont ((f ^^ Suc (Suc l)) x) ((f ^^ Suc l) x))"
    by (simp add: All_less_Suc2)
  then show ?thesis
    unfolding first_stop_def sh by blast
qed

lemma first_stop_unique: "first_stop f cont x n \<Longrightarrow> first_stop f cont x n' \<Longrightarrow> n = n'"
  unfolding first_stop_def by (metis linorder_neqE_nat)

lemma policy_iteration_loop_SomeD:
  assumes "policy_iteration_loop s m \<sigma> i = Some y"
  shows "\<exists>n. y = ((pi_step s m ^^ Suc n) \<sigma>, i + Suc n) \<and>
           first_stop (pi_step s m) (\<lambda>a b. 0 < max_abs_diff a b) \<sigma> n"
proof (rule policy_iteration_loop.raw_induct
    [where P = "\<lambda>s m \<sigma> i y. \<exists>n. y = ((pi_step s m ^^ Suc n) \<sigma>, i + Suc n) \<and>
           first_stop (pi_step s m) (\<lambda>a b. 0 < max_abs_diff a b) \<sigma> n", OF _ assms])
  fix loop s' m' \<sigma>' i' y'
  assume IH: "\<And>s m \<sigma> i y. loop s m \<sigma> i = Some y \<Longrightarrow>
      \<exists>n. y = ((pi_step s m ^^ Suc n) \<sigma>, i + Suc n) \<and>
           first_stop (pi_step s m) (\<lambda>a b. 0 < max_abs_diff a b) \<sigma> n"
    and eq: "(let v_\<sigma> = get_value_2 s' m' \<sigma>'; \<sigma>_new = get_greedy m' v_\<sigma>;
          error = max_abs_diff \<sigma>_new \<sigma>'
      in if 0 < error then loop s' m' \<sigma>_new (i' + 1) else Some (\<sigma>_new, i' + 1)) = Some y'"
  let ?f = "pi_step s' m'"
  show "\<exists>n. y' = ((?f ^^ Suc n) \<sigma>', i' + Suc n) \<and>
           first_stop ?f (\<lambda>a b. 0 < max_abs_diff a b) \<sigma>' n"
  proof (cases "0 < max_abs_diff (?f \<sigma>') \<sigma>'")
    case True
    with eq have "loop s' m' (?f \<sigma>') (i' + 1) = Some y'"
      by (simp add: Let_def pi_step_def)
    from IH [OF this] obtain n where n: "y' = ((?f ^^ Suc n) (?f \<sigma>'), i' + 1 + Suc n)"
      "first_stop ?f (\<lambda>a b. 0 < max_abs_diff a b) (?f \<sigma>') n"
      by (elim exE conjE)
    from n(1) have "y' = ((?f ^^ Suc (Suc n)) \<sigma>', i' + Suc (Suc n))"
      by (simp add: funpow_swap1)
    moreover from n(2) True have "first_stop ?f (\<lambda>a b. 0 < max_abs_diff a b) \<sigma>' (Suc n)"
      by (simp add: first_stop_Suc)
    ultimately show ?thesis by blast
  next
    case False
    with eq have "y' = (?f \<sigma>', i' + 1)" by (simp add: Let_def pi_step_def)
    with False show ?thesis by (intro exI [of _ 0]) (simp add: first_stop_0)
  qed
qed

lemma policy_iteration_loop_SomeI:
  assumes "first_stop (pi_step s m) (\<lambda>a b. 0 < max_abs_diff a b) \<sigma> n"
  shows "policy_iteration_loop s m \<sigma> i = Some ((pi_step s m ^^ Suc n) \<sigma>, i + Suc n)"
  using assms
proof (induction n arbitrary: \<sigma> i)
  case 0
  then show ?case by (subst policy_iteration_loop_unfold) (simp add: first_stop_0)
next
  case (Suc n)
  let ?f = "pi_step s m"
  from Suc.prems have first: "0 < max_abs_diff (?f \<sigma>) \<sigma>"
    and rest: "first_stop ?f (\<lambda>a b. 0 < max_abs_diff a b) (?f \<sigma>) n"
    by (simp_all add: first_stop_Suc)
  from Suc.IH [OF rest, of "Suc i"] first show ?case
    by (subst policy_iteration_loop_unfold) (simp add: funpow_swap1)
qed

lemma optimistic_policy_iteration_loop_unfold:
  "optimistic_policy_iteration_loop m tol depth v =
     (if tol < max_abs_diff (opi_step m depth v) v
      then optimistic_policy_iteration_loop m tol depth (opi_step m depth v)
      else Some (opi_step m depth v))"
  by (subst optimistic_policy_iteration_loop.simps) (simp add: Let_def opi_step_def)

lemma optimistic_policy_iteration_loop_SomeD:
  assumes "optimistic_policy_iteration_loop m tol depth v = Some y"
  shows "\<exists>n. y = (opi_step m depth ^^ Suc n) v \<and>
           first_stop (opi_step m depth) (\<lambda>a b. tol < max_abs_diff a b) v n"
proof (rule optimistic_policy_iteration_loop.raw_induct
    [where P = "\<lambda>m tol depth v y. \<exists>n. y = (opi_step m depth ^^ Suc n) v \<and>
           first_stop (opi_step m depth) (\<lambda>a b. tol < max_abs_diff a b) v n", OF _ assms])
  fix loop m' tol' depth' v' y'
  assume IH: "\<And>m tol depth v y. loop m tol depth v = Some y \<Longrightarrow>
      \<exists>n. y = (opi_step m depth ^^ Suc n) v \<and>
           first_stop (opi_step m depth) (\<lambda>a b. tol < max_abs_diff a b) v n"
    and eq: "(let last_v = v'; \<sigma> = get_greedy m' v';
          v'' = ((\<lambda>w. T_\<sigma>_2 m' w \<sigma>) ^^ depth') v';
          error = max_abs_diff v'' last_v
      in if tol' < error then loop m' tol' depth' v'' else Some v'') = Some y'"
  let ?f = "opi_step m' depth'"
  show "\<exists>n. y' = (?f ^^ Suc n) v' \<and> first_stop ?f (\<lambda>a b. tol' < max_abs_diff a b) v' n"
  proof (cases "tol' < max_abs_diff (?f v') v'")
    case True
    with eq have "loop m' tol' depth' (?f v') = Some y'"
      by (simp add: Let_def opi_step_def)
    from IH [OF this] obtain n where n: "y' = (?f ^^ Suc n) (?f v')"
      "first_stop ?f (\<lambda>a b. tol' < max_abs_diff a b) (?f v') n"
      by (elim exE conjE)
    from n(1) have "y' = (?f ^^ Suc (Suc n)) v'"
      by (simp add: funpow_swap1)
    moreover from n(2) True have "first_stop ?f (\<lambda>a b. tol' < max_abs_diff a b) v' (Suc n)"
      by (simp add: first_stop_Suc)
    ultimately show ?thesis by blast
  next
    case False
    with eq have "y' = ?f v'" by (simp add: Let_def opi_step_def)
    with False show ?thesis by (intro exI [of _ 0]) (simp add: first_stop_0)
  qed
qed

lemma optimistic_policy_iteration_loop_SomeI:
  assumes "first_stop (opi_step m depth) (\<lambda>a b. tol < max_abs_diff a b) v n"
  shows "optimistic_policy_iteration_loop m tol depth v = Some ((opi_step m depth ^^ Suc n) v)"
  using assms
proof (induction n arbitrary: v)
  case 0
  then show ?case by (subst optimistic_policy_iteration_loop_unfold) (simp add: first_stop_0)
next
  case (Suc n)
  let ?f = "opi_step m depth"
  from Suc.prems have first: "tol < max_abs_diff (?f v) v"
    and rest: "first_stop ?f (\<lambda>a b. tol < max_abs_diff a b) (?f v) n"
    by (simp_all add: first_stop_Suc)
  from Suc.IH [OF rest] first show ?case
    by (subst optimistic_policy_iteration_loop_unfold) (simp add: funpow_swap1)
qed

lemma successive_approx_unfold:
  "successive_approx f x tol =
     (if \<not> max_abs_diff (f x) x < tol then successive_approx f (f x) tol else Some (f x))"
  by (subst successive_approx.simps) (simp add: Let_def)

lemma successive_approx_SomeD:
  assumes "successive_approx f x tol = Some y"
  shows "\<exists>n. y = (f ^^ Suc n) x \<and> first_stop f (\<lambda>a b. \<not> max_abs_diff a b < tol) x n"
proof (rule successive_approx.raw_induct
    [where xa = "((f, x), tol)" and P = "\<lambda>f x tol y. \<exists>n. y = (f ^^ Suc n) x \<and>
       first_stop f (\<lambda>a b. \<not> max_abs_diff a b < tol) x n", unfolded prod.case, OF _ assms])
  fix loop f' x' tol' y'
  assume IH: "\<And>f x tol y. loop f x tol = Some y \<Longrightarrow>
      \<exists>n. y = (f ^^ Suc n) x \<and> first_stop f (\<lambda>a b. \<not> max_abs_diff a b < tol) x n"
    and eq: "(let x_new = f' x'
      in if max_abs_diff x_new x' < tol' then Some x_new else loop f' x_new tol') = Some y'"
  show "\<exists>n. y' = (f' ^^ Suc n) x' \<and> first_stop f' (\<lambda>a b. \<not> max_abs_diff a b < tol') x' n"
  proof (cases "max_abs_diff (f' x') x' < tol'")
    case False
    with eq have "loop f' (f' x') tol' = Some y'"
      by (simp add: Let_def)
    from IH [OF this] obtain n where n: "y' = (f' ^^ Suc n) (f' x')"
      "first_stop f' (\<lambda>a b. \<not> max_abs_diff a b < tol') (f' x') n"
      by (elim exE conjE)
    from n(1) have "y' = (f' ^^ Suc (Suc n)) x'"
      by (simp add: funpow_swap1)
    moreover from n(2) False have "first_stop f' (\<lambda>a b. \<not> max_abs_diff a b < tol') x' (Suc n)"
      by (simp add: first_stop_Suc)
    ultimately show ?thesis by blast
  next
    case True
    with eq have "y' = f' x'" by (simp add: Let_def)
    with True show ?thesis by (intro exI [of _ 0]) (simp add: first_stop_0)
  qed
qed

lemma successive_approx_SomeI:
  assumes "first_stop f (\<lambda>a b. \<not> max_abs_diff a b < tol) x n"
  shows "successive_approx f x tol = Some ((f ^^ Suc n) x)"
  using assms
proof (induction n arbitrary: x)
  case 0
  then show ?case by (subst successive_approx_unfold) (simp add: first_stop_0)
next
  case (Suc n)
  from Suc.prems have first: "\<not> max_abs_diff (f x) x < tol"
    and rest: "first_stop f (\<lambda>a b. \<not> max_abs_diff a b < tol) (f x) n"
    by (simp_all add: first_stop_Suc)
  from Suc.IH [OF rest] first show ?case
    by (subst successive_approx_unfold) (simp add: funpow_swap1)
qed

section \<open>Shapes of the policy operators\<close>

lemma bzip2_shape2:
  assumes "has_shape2 n k a" "has_shape2 n k b"
  shows "bzip2 f a b = map (\<lambda>i. map (\<lambda>j. f (a ! i ! j) (b ! i ! j)) [0..<k]) [0..<n]"
proof -
  let ?a = "map (\<lambda>i. map (\<lambda>j. a ! i ! j) [0..<k]) [0..<n]"
  let ?b = "map (\<lambda>i. map (\<lambda>j. b ! i ! j) [0..<k]) [0..<n]"
  have ea: "?a = a" and eb: "?b = b"
    using assms by (simp_all add: shape2_as_map [symmetric])
  have "bzip2 f ?a ?b = map (\<lambda>i. map (\<lambda>j. f (a ! i ! j) (b ! i ! j)) [0..<k]) [0..<n]"
    by simp
  then show ?thesis by (simp only: ea eb)
qed

lemma smap2_shape2:
  assumes "has_shape2 n k a"
  shows "smap2 f a = map (\<lambda>i. map (\<lambda>j. f (a ! i ! j)) [0..<k]) [0..<n]"
proof -
  let ?a = "map (\<lambda>i. map (\<lambda>j. a ! i ! j) [0..<k]) [0..<n]"
  have ea: "?a = a" using assms by (simp add: shape2_as_map [symmetric])
  have "smap2 f ?a = map (\<lambda>i. map (\<lambda>j. f (a ! i ! j)) [0..<k]) [0..<n]"
    by (simp add: comp_def)
  then show ?thesis by (simp only: ea)
qed

lemma shape2_map [simp]: "has_shape2 n k (map (\<lambda>i. map (f i) [0..<k]) [0..<n])"
  by (auto simp: has_shape2_def)

lemma Ev_shape:
  assumes "shapes_ok m"
  shows "has_shape2 (y_size m) (z_size m) (Ev m v \<sigma>)"
proof -
  from assms have pos: "0 < y_size m" "0 < z_size m" by (simp_all add: shapes_ok_def)
  show ?thesis unfolding Ev_eq [OF pos] by (rule shape2_map)
qed

lemma A_eq:
  assumes "shapes_ok m" "has_shape2 (y_size m) (z_size m) v"
  shows "A m v \<sigma> = map (\<lambda>i. map (\<lambda>j. v ! i ! j - \<beta> m * Ev m v \<sigma> ! i ! j) [0..<z_size m]) [0..<y_size m]"
proof -
  have s: "has_shape2 (y_size m) (z_size m) (smap2 (\<lambda>x. \<beta> m * x) (Ev m v \<sigma>))"
    using Ev_shape [OF assms(1)] by (auto simp: has_shape2_def)
  show ?thesis
    unfolding A_def bzip2_shape2 [OF assms(2) s]
    using Ev_shape [OF assms(1), of v \<sigma>]
    by (auto simp: has_shape2_def)
qed

lemma T_sigma_2_via_Ev:
  assumes "shapes_ok m" "valid_policy m \<sigma>"
  shows "T_\<sigma>_2 m v \<sigma> = map (\<lambda>i. map (\<lambda>j. r_\<sigma> m \<sigma> ! i ! j + \<beta> m * Ev m v \<sigma> ! i ! j) [0..<z_size m]) [0..<y_size m]"
proof -
  have s: "has_shape2 (y_size m) (z_size m) (smap2 (\<lambda>x. \<beta> m * x) (Ev m v \<sigma>))"
    using Ev_shape [OF assms(1)] by (auto simp: has_shape2_def)
  show ?thesis
    unfolding T_\<sigma>_2_def bzip2_shape2 [OF r_sigma_shape [OF assms] s]
    using Ev_shape [OF assms(1), of v \<sigma>]
    by (auto simp: has_shape2_def)
qed

lemma bzip2_nth:
  assumes "has_shape2 n k a" "has_shape2 n k b" "i < n" "j < k"
  shows "bzip2 f a b ! i ! j = f (a ! i ! j) (b ! i ! j)"
  using assms(3,4) by (simp add: bzip2_shape2 [OF assms(1,2)])

lemma bzip2_shape:
  assumes "has_shape2 n k a" "has_shape2 n k b"
  shows "has_shape2 n k (bzip2 f a b)"
  unfolding bzip2_shape2 [OF assms] by (rule shape2_map)

lemma A_shape:
  assumes "shapes_ok m" "has_shape2 (y_size m) (z_size m) v"
  shows "has_shape2 (y_size m) (z_size m) (A m v \<sigma>)"
  unfolding A_eq [OF assms] by (rule shape2_map)

lemma zeros_of_shape:
  assumes "has_shape2 (y_size m) (z_size m) b"
  shows "smap2 (\<lambda>_. 0) b = zeros m"
proof (rule shape2_eqI)
  show "has_shape2 (y_size m) (z_size m) (smap2 (\<lambda>_. 0) b)"
    unfolding smap2_shape2 [OF assms] by (rule shape2_map)
  show "has_shape2 (y_size m) (z_size m) (zeros m)" by (rule shape_zeros)
  fix i j assume "i < y_size m" "j < z_size m"
  then show "smap2 (\<lambda>_. 0) b ! i ! j = zeros m ! i ! j"
    by (simp add: smap2_shape2 [OF assms] zeros_def)
qed

lemma T_sigma_2_iterate_shape:
  assumes "shapes_ok m" "valid_policy m \<sigma>" "has_shape2 (y_size m) (z_size m) v"
  shows "has_shape2 (y_size m) (z_size m) (((\<lambda>x. T_\<sigma>_2 m x \<sigma>) ^^ k) v)"
  by (induction k) (simp_all add: assms T_sigma_2_shape)

section \<open>Howard policy iteration\<close>

lemma max_abs_diff_pos_iff:
  fixes a b :: "'a::linordered_idom list list"
  assumes "has_shape2 n k a" "has_shape2 n k b" "0 < n" "0 < k"
  shows "0 < max_abs_diff a b \<longleftrightarrow> a \<noteq> b"
proof
  assume "0 < max_abs_diff a b"
  show "a \<noteq> b"
  proof
    assume "a = b"
    then have "max_abs_diff a b \<le> 0"
      using assms by (intro max_abs_diff_le [OF assms]) simp
    with \<open>0 < max_abs_diff a b\<close> show False by simp
  qed
next
  assume "a \<noteq> b"
  then obtain i j where ij: "i < n" "j < k" "a ! i ! j \<noteq> b ! i ! j"
    using shape2_eqI [OF assms(1,2)] by blast
  then have "0 < \<bar>a ! i ! j - b ! i ! j\<bar>" by simp
  also have "\<dots> \<le> max_abs_diff a b" using assms(1,2) ij(1,2) by (rule max_abs_diff_ge)
  finally show "0 < max_abs_diff a b" .
qed

lemma pi_step_shape:
  assumes "shapes_ok m"
  shows "has_shape2 (y_size m) (z_size m) (pi_step s m \<sigma>)"
  unfolding pi_step_def by (rule get_greedy_shape [OF assms])

lemma valid_policy_zeros:
  assumes "shapes_ok m"
  shows "valid_policy m (zeros m)"
proof -
  have "\<forall>row \<in> set (zeros m :: int list list). \<forall>s \<in> set row. 0 \<le> s \<and> s < int (y_size m)"
    using assms by (auto simp: zeros_def shapes_ok_def)
  then show ?thesis unfolding valid_policy_def using shape_zeros by blast
qed

lemma pi_iterate_valid:
  assumes "shapes_ok m"
  shows "valid_policy m ((pi_step s m ^^ n) (zeros m))"
proof (cases n)
  case 0
  then show ?thesis using assms by (simp add: valid_policy_zeros)
next
  case (Suc k)
  then show ?thesis using assms by (simp add: pi_step_def get_greedy_valid)
qed

lemma first_stop_cong:
  assumes "\<And>l. l \<le> n \<Longrightarrow> cont ((f ^^ Suc l) x) ((f ^^ l) x) \<longleftrightarrow> cont' ((f ^^ Suc l) x) ((f ^^ l) x)"
  shows "first_stop f cont x n \<longleftrightarrow> first_stop f cont' x n"
  unfolding first_stop_def using assms by (metis less_imp_le_nat order_refl)

lemma pi_first_stop_neq:
  assumes "shapes_ok m"
  shows "first_stop (pi_step s m) (\<lambda>a b. 0 < max_abs_diff a b) (zeros m) n
     \<longleftrightarrow> first_stop (pi_step s m) (\<lambda>a b. a \<noteq> b) (zeros m) n"
proof (rule first_stop_cong)
  fix l
  from assms have pos: "0 < y_size m" "0 < z_size m" by (simp_all add: shapes_ok_def)
  have "has_shape2 (y_size m) (z_size m) ((pi_step s m ^^ k) (zeros m))" for k
    using pi_iterate_valid [OF assms, where s = s and n = k] by (simp add: valid_policy_def)
  from max_abs_diff_pos_iff [OF this this pos]
  show "0 < max_abs_diff ((pi_step s m ^^ Suc l) (zeros m)) ((pi_step s m ^^ l) (zeros m))
     \<longleftrightarrow> (pi_step s m ^^ Suc l) (zeros m) \<noteq> (pi_step s m ^^ l) (zeros m)" .
qed

lemma policy_iteration_loop_iff:
  "policy_iteration_loop s m \<sigma> i = Some y \<longleftrightarrow>
     (\<exists>n. y = ((pi_step s m ^^ Suc n) \<sigma>, i + Suc n) \<and>
          first_stop (pi_step s m) (\<lambda>a b. 0 < max_abs_diff a b) \<sigma> n)"
  using policy_iteration_loop_SomeD policy_iteration_loop_SomeI by blast

lemma policy_iteration_None_iff:
  assumes "shapes_ok m"
  shows "policy_iteration s m = None \<longleftrightarrow>
     (\<forall>n. (pi_step s m ^^ Suc n) (zeros m) \<noteq> (pi_step s m ^^ n) (zeros m))"
proof -
  let ?f = "pi_step s m" and ?z = "zeros m :: int list list"
  have "policy_iteration s m = None \<longleftrightarrow> policy_iteration_loop s m ?z 0 = None"
    by (simp add: policy_iteration_def)
  also have "\<dots> \<longleftrightarrow> (\<forall>y. policy_iteration_loop s m ?z 0 \<noteq> Some y)"
    by (cases "policy_iteration_loop s m ?z 0") simp_all
  also have "\<dots> \<longleftrightarrow> (\<forall>n. \<not> first_stop ?f (\<lambda>a b. a \<noteq> b) ?z n)"
    unfolding policy_iteration_loop_iff pi_first_stop_neq [OF assms] by blast
  also have "\<dots> \<longleftrightarrow> (\<forall>n. (?f ^^ Suc n) ?z \<noteq> (?f ^^ n) ?z)"
  proof
    assume never: "\<forall>n. \<not> first_stop ?f (\<lambda>a b. a \<noteq> b) ?z n"
    show "\<forall>n. (?f ^^ Suc n) ?z \<noteq> (?f ^^ n) ?z"
    proof
      fix n
      show "(?f ^^ Suc n) ?z \<noteq> (?f ^^ n) ?z"
      proof (induction n rule: less_induct)
        case (less n)
        with never [rule_format, of n] show ?case unfolding first_stop_def by blast
      qed
    qed
  next
    assume "\<forall>n. (?f ^^ Suc n) ?z \<noteq> (?f ^^ n) ?z"
    then show "\<forall>n. \<not> first_stop ?f (\<lambda>a b. a \<noteq> b) ?z n"
      unfolding first_stop_def by blast
  qed
  finally show ?thesis .
qed

text \<open>
  C6, as amended. \<open>policy_iteration\<close> takes no iteration cap and has no outcome other than
  a policy. Its loop returns after \<open>k\<close> iterations with the policy \<open>\<sigma>\<close> exactly when
  iteration \<open>k\<close> is the first whose greedy policy equals the policy it evaluated, \<open>\<sigma>\<close> being
  that policy; the number of iterations is not bounded by anything the caller supplies,
  and when every iteration changes the policy the loop does not terminate.
\<close>

theorem policy_iteration_no_cap:
  assumes "shapes_ok m"
  shows "(policy_iteration_loop s m (zeros m) 0 = Some (\<sigma>, k) \<longleftrightarrow>
      (\<exists>n. k = Suc n \<and> \<sigma> = (pi_step s m ^^ Suc n) (zeros m) \<and>
           (pi_step s m ^^ Suc n) (zeros m) = (pi_step s m ^^ n) (zeros m) \<and>
           (\<forall>l<n. (pi_step s m ^^ Suc l) (zeros m) \<noteq> (pi_step s m ^^ l) (zeros m)))) \<and>
    (policy_iteration s m = Some \<sigma> \<longleftrightarrow> (\<exists>k. policy_iteration_loop s m (zeros m) 0 = Some (\<sigma>, k))) \<and>
    (policy_iteration s m = None \<longleftrightarrow>
      (\<forall>n. (pi_step s m ^^ Suc n) (zeros m) \<noteq> (pi_step s m ^^ n) (zeros m)))"
proof (intro conjI)
  show "policy_iteration_loop s m (zeros m) 0 = Some (\<sigma>, k) \<longleftrightarrow>
      (\<exists>n. k = Suc n \<and> \<sigma> = (pi_step s m ^^ Suc n) (zeros m) \<and>
           (pi_step s m ^^ Suc n) (zeros m) = (pi_step s m ^^ n) (zeros m) \<and>
           (\<forall>l<n. (pi_step s m ^^ Suc l) (zeros m) \<noteq> (pi_step s m ^^ l) (zeros m)))"
  proof -
    have "policy_iteration_loop s m (zeros m) 0 = Some (\<sigma>, k) \<longleftrightarrow>
        (\<exists>n. (\<sigma>, k) = ((pi_step s m ^^ Suc n) (zeros m), 0 + Suc n) \<and>
          first_stop (pi_step s m) (\<lambda>a b. 0 < max_abs_diff a b) (zeros m) n)"
      by (rule policy_iteration_loop_iff)
    also have "\<dots> \<longleftrightarrow> (\<exists>n. (\<sigma>, k) = ((pi_step s m ^^ Suc n) (zeros m), 0 + Suc n) \<and>
          first_stop (pi_step s m) (\<lambda>a b. a \<noteq> b) (zeros m) n)"
      by (simp only: pi_first_stop_neq [OF assms])
    also have "\<dots> \<longleftrightarrow> (\<exists>n. k = Suc n \<and> \<sigma> = (pi_step s m ^^ Suc n) (zeros m) \<and>
           (pi_step s m ^^ Suc n) (zeros m) = (pi_step s m ^^ n) (zeros m) \<and>
           (\<forall>l<n. (pi_step s m ^^ Suc l) (zeros m) \<noteq> (pi_step s m ^^ l) (zeros m)))"
      unfolding first_stop_def by auto
    finally show ?thesis .
  qed
  show "policy_iteration s m = Some \<sigma> \<longleftrightarrow> (\<exists>k. policy_iteration_loop s m (zeros m) 0 = Some (\<sigma>, k))"
    by (auto simp: policy_iteration_def)
  show "policy_iteration s m = None \<longleftrightarrow>
      (\<forall>n. (pi_step s m ^^ Suc n) (zeros m) \<noteq> (pi_step s m ^^ n) (zeros m))"
    by (rule policy_iteration_None_iff [OF assms])
qed

end
